theory Spec2Isabelle
  imports Complex_Main "HOL-Library.Word"
begin

unbundle bit_operations_syntax

section \<open>Data model\<close>

text \<open>
  The image processor of the repository (\<^verbatim>\<open>src/unnamed/part_000\<close>) works on JavaScript
  numbers and on \<^verbatim>\<open>Uint8ClampedArray\<close> pixel buffers. A JavaScript number is a binary64
  value: here a \<^typ>\<open>real\<close>, with every arithmetic operation of the source rounding its
  exact result to the nearest binary64 value, a tie going to the even significand. The
  two infinities and NaN have no counterpart: a result of magnitude \<open>2 ^ 1024\<close> or more, and
  a division by zero, are outside the model (neither arises from 8-bit samples, bounds in
  [0, 255] and positive dimensions). A pixel buffer is a list of bytes, four per pixel
  (R, G, B, A).
\<close>

type_synonym u8 = "8 word"

text \<open>\<^verbatim>\<open>ProcessingConfig\<close> of \<^verbatim>\<open>src/types.ts\<close>. The optional fields are options;
  the text payload is the string as its UTF-8 bytes.\<close>

record ProcessingConfig =
  surfaceMin :: real
  hiddenMax :: real
  grayscale :: bool
  dithering :: real
  steganography :: string
  width :: "real option"
  height :: "real option"

section \<open>Binary64 arithmetic\<close>

text \<open>Rounding to the nearest integer, a tie going to the even one.\<close>

definition rne :: "real \<Rightarrow> int" where
  "rne x =
     (let f = \<lfloor>x\<rfloor>
      in if x < real_of_int f + 1/2 then f
         else if real_of_int f + 1/2 < x then f + 1
         else if even f then f else f + 1)"

text \<open>\<open>ilog2 x\<close> is the exponent \<open>k\<close> with \<open>2 ^ k \<le> x < 2 ^ (k + 1)\<close> of a positive \<open>x\<close>,
  computed from the binary length of an integer; \<open>pow2\<close> is the power of two with an
  integer exponent.\<close>

function floorLog2 :: "int \<Rightarrow> int" where
  "floorLog2 n = (if n < 2 then 0 else floorLog2 (n div 2) + 1)"
  by pat_completeness auto
termination
  by (relation "measure nat") auto

declare floorLog2.simps [simp del]

definition pow2 :: "int \<Rightarrow> real" where
  "pow2 e = (if 0 \<le> e then 2 ^ nat e else 1 / 2 ^ nat (- e))"

definition ilog2 :: "real \<Rightarrow> int" where
  "ilog2 x =
     (if 1 \<le> x then floorLog2 \<lfloor>x\<rfloor>
      else - floorLog2 (\<lceil>1 / x\<rceil> - 1) - 1)"

text \<open>A binary64 value has a significand of 53 bits; its least exponent is \<open>- 1022\<close>, below
  which the spacing stays \<open>2 ^ - 1074\<close> (subnormal values). \<open>expo x\<close> is the exponent of the
  last significand bit of the values near \<open>x\<close>, and \<open>binary64 x\<close> the value nearest to \<open>x\<close>.\<close>

definition expo :: "real \<Rightarrow> int" where
  "expo x = max (ilog2 x) (- 1022) - 52"

definition b64pos :: "real \<Rightarrow> real" where
  "b64pos x = real_of_int (rne (x / pow2 (expo x))) * pow2 (expo x)"

definition binary64 :: "real \<Rightarrow> real" where
  "binary64 x = (if x = 0 then 0 else if x < 0 then - b64pos (- x) else b64pos x)"

text \<open>The four operators of the source on numbers. The source divides by the constants
  255 and 2, by a positive alpha, and by positive dimensions and their ratio.\<close>

definition fadd :: "real \<Rightarrow> real \<Rightarrow> real" where
  "fadd a b = binary64 (a + b)"

definition fsub :: "real \<Rightarrow> real \<Rightarrow> real" where
  "fsub a b = binary64 (a - b)"

definition fmul :: "real \<Rightarrow> real \<Rightarrow> real" where
  "fmul a b = binary64 (a * b)"

definition fdiv :: "real \<Rightarrow> real \<Rightarrow> real" where
  "fdiv a b = binary64 (a / b)"

text \<open>The decimal literals of the source that are not binary64 values themselves: each
  stands for the binary64 value nearest to it.\<close>

definition lit_0_2126 :: real where
  "lit_0_2126 = binary64 (2126 / 10000)"

definition lit_0_7152 :: real where
  "lit_0_7152 = binary64 (7152 / 10000)"

definition lit_0_0722 :: real where
  "lit_0_0722 = binary64 (722 / 10000)"

definition lit_0_2 :: real where
  "lit_0_2 = binary64 (2 / 10)"

section \<open>Cover dimensions\<close>


section \<open>Cover-fit calculator\<close>


section \<open>Output dimensions\<close>

text \<open>\<^verbatim>\<open>config.width || Math.min(surfaceImg.width, hiddenImg.width)\<close>: the operator
  \<^verbatim>\<open>||\<close> takes its right operand when the left one is falsy, which for an optional
  number is \<^verbatim>\<open>undefined\<close> or \<^verbatim>\<open>0\<close>.\<close>

definition orElse :: "real option \<Rightarrow> real \<Rightarrow> real" where
  "orElse v d = (case v of None \<Rightarrow> d | Some x \<Rightarrow> if x = 0 then d else x)"

definition outputWidth :: "ProcessingConfig \<Rightarrow> nat \<Rightarrow> nat \<Rightarrow> real" where
  "outputWidth config surfaceW hiddenW = orElse (width config) (real (min surfaceW hiddenW))"

definition outputHeight :: "ProcessingConfig \<Rightarrow> nat \<Rightarrow> nat \<Rightarrow> real" where
  "outputHeight config surfaceH hiddenH = orElse (height config) (real (min surfaceH hiddenH))"

section \<open>Storing into the output buffer\<close>

text \<open>The output buffer is the \<^verbatim>\<open>data\<close> of an \<^verbatim>\<open>ImageData\<close>, a
  \<^verbatim>\<open>Uint8ClampedArray\<close> (the type \<^verbatim>\<open>embedSteganography\<close> declares for it). An
  assignment to one of its elements converts the number with the language's
  \<^verbatim>\<open>ToUint8Clamp\<close>: clamp to [0, 255], then round to the nearest integer, a tie going
  to the even neighbour.\<close>

definition toUint8Clamp :: "real \<Rightarrow> u8" where
  "toUint8Clamp v =
     (let c = max 0 (min 255 v);
          f = \<lfloor>c\<rfloor>
      in if real_of_int f + 1/2 < c then word_of_int (f + 1)
         else if c < real_of_int f + 1/2 then word_of_int f
         else if even f then word_of_int f else word_of_int (f + 1))"

section \<open>Pixel compositor\<close>

text \<open>The linear remaps with their clamps, \<^verbatim>\<open>Math.max(0, Math.min(255, x * scaleA + offsetA))\<close>
  and \<^verbatim>\<open>Math.max(0, Math.min(255, x * scaleB))\<close>.\<close>

definition scaleA :: "ProcessingConfig \<Rightarrow> real" where
  "scaleA config = fdiv (fsub 255 (surfaceMin config)) 255"

definition offsetA :: "ProcessingConfig \<Rightarrow> real" where
  "offsetA config = surfaceMin config"

definition scaleB :: "ProcessingConfig \<Rightarrow> real" where
  "scaleB config = fdiv (hiddenMax config) 255"

definition remapA :: "ProcessingConfig \<Rightarrow> real \<Rightarrow> real" where
  "remapA config x = max 0 (min 255 (fadd (fmul x (scaleA config)) (offsetA config)))"

definition remapB :: "ProcessingConfig \<Rightarrow> real \<Rightarrow> real" where
  "remapB config x = max 0 (min 255 (fmul x (scaleB config)))"

text \<open>BT.709 luminance, \<^verbatim>\<open>0.2126 * r + 0.7152 * g + 0.0722 * b\<close>.\<close>

definition luminance :: "real \<Rightarrow> real \<Rightarrow> real \<Rightarrow> real" where
  "luminance r g b = fadd (fadd (fmul lit_0_2126 r) (fmul lit_0_7152 g)) (fmul lit_0_0722 b)"

text \<open>The dominance clamp \<^verbatim>\<open>if (b > a) b = a\<close>, returning the new value of \<^verbatim>\<open>b\<close>.\<close>

definition dominate :: "real \<Rightarrow> real \<Rightarrow> real" where
  "dominate a b = (if b > a then a else b)"

text \<open>Grayscale mode from the remapped luminances on: the dominance clamp, alpha and
  gray. The result is the pair \<open>(gray, alpha)\<close> before it is stored.\<close>

definition grayAlpha :: "real \<Rightarrow> real \<Rightarrow> real \<times> real" where
  "grayAlpha lumA' lumB' =
     (let lumB'' = dominate lumA' lumB';
          alpha = fsub 255 (fsub lumA' lumB'');
          gray = (if alpha > 0 then fdiv (fmul lumB'' 255) alpha else 0)
      in (gray, alpha))"

text \<open>The grayscale branch for one pixel, from the (dithered) samples: the four values
  assigned to \<^verbatim>\<open>resultData.data[i .. i + 3]\<close>.\<close>

definition grayscalePixel ::
  "ProcessingConfig \<Rightarrow> real \<times> real \<times> real \<Rightarrow> real \<times> real \<times> real \<Rightarrow> real list" where
  "grayscalePixel config A B =
     (case A of (rA, gA, bA) \<Rightarrow> case B of (rB, gB, bB) \<Rightarrow>
        let lumA = remapA config (luminance rA gA bA);
            lumB = remapB config (luminance rB gB bB);
            (gray, alpha) = grayAlpha lumA lumB
        in [gray, gray, gray, alpha])"

text \<open>Colour mode. \<open>colorChannels\<close> gives the remapped channels of A and the remapped,
  dominance-clamped channels of B.\<close>

definition colorChannels ::
  "ProcessingConfig \<Rightarrow> real \<times> real \<times> real \<Rightarrow> real \<times> real \<times> real
     \<Rightarrow> (real \<times> real \<times> real) \<times> (real \<times> real \<times> real)" where
  "colorChannels config A B =
     (case A of (rA, gA, bA) \<Rightarrow> case B of (rB, gB, bB) \<Rightarrow>
        let rA' = remapA config rA; gA' = remapA config gA; bA' = remapA config bA;
            rB' = remapB config rB; gB' = remapB config gB; bB' = remapB config bB
        in ((rA', gA', bA'), (dominate rA' rB', dominate gA' gB', dominate bA' bB')))"

definition colorPixel ::
  "ProcessingConfig \<Rightarrow> real \<times> real \<times> real \<Rightarrow> real \<times> real \<times> real \<Rightarrow> real list" where
  "colorPixel config A B =
     (case colorChannels config A B of ((rA, gA, bA), (rB, gB, bB)) \<Rightarrow>
        let alphaR = fsub 255 (fsub rA rB);
            alphaG = fsub 255 (fsub gA gB);
            alphaB = fsub 255 (fsub bA bB);
            finalAlpha = max alphaR (max alphaG alphaB)
        in if finalAlpha > 0
           then [fdiv (fmul rB 255) finalAlpha, fdiv (fmul gB 255) finalAlpha,
                 fdiv (fmul bB 255) finalAlpha, finalAlpha]
           else [0, 0, 0, finalAlpha])"

definition pixelValues ::
  "ProcessingConfig \<Rightarrow> real \<times> real \<times> real \<Rightarrow> real \<times> real \<times> real \<Rightarrow> real list" where
  "pixelValues config A B =
     (if grayscale config then grayscalePixel config A B else colorPixel config A B)"

section \<open>Dither source\<close>

text \<open>\<^verbatim>\<open>Math.random()\<close> is a generator with a state: here a sequence of numbers of
  [0, 1) and the position of the next draw. Each call returns the number at the position
  and advances it.\<close>

type_synonym rng = "(nat \<Rightarrow> real) \<times> nat"

definition random :: "rng \<Rightarrow> real \<times> rng" where
  "random g = (case g of (f, n) \<Rightarrow> (f n, (f, Suc n)))"

definition ditheringStrength :: "ProcessingConfig \<Rightarrow> real" where
  "ditheringStrength config = fmul (dithering config) 10"

definition dither ::
  "ProcessingConfig \<Rightarrow> rng \<Rightarrow> real \<times> real \<times> real \<Rightarrow> real \<times> real \<times> real
     \<Rightarrow> ((real \<times> real \<times> real) \<times> (real \<times> real \<times> real)) \<times> rng" where
  "dither config g A B =
     (case A of (rA, gA, bA) \<Rightarrow> case B of (rB, gB, bB) \<Rightarrow>
        if ditheringStrength config > 0
        then (case random g of (u, g') \<Rightarrow>
                let noise = fmul (fsub u (1/2)) (ditheringStrength config)
                in (((fadd rA noise, fadd gA noise, fadd bA noise),
                     (fadd rB noise, fadd gB noise, fadd bB noise)), g'))
        else ((A, B), g))"

section \<open>The pixel loop\<close>

text \<open>Reading the three colour samples of the pixel at byte offset \<open>i\<close>.\<close>

definition sample :: "u8 list \<Rightarrow> nat \<Rightarrow> real \<times> real \<times> real" where
  "sample d i = (real (unat (d ! i)), real (unat (d ! (i + 1))), real (unat (d ! (i + 2))))"

text \<open>The four assignments \<^verbatim>\<open>resultData.data[i + k] = v\<close>. An assignment beyond the end
  of a typed array does nothing, as \<open>list_update\<close> does.\<close>

definition storePixel :: "u8 list \<Rightarrow> nat \<Rightarrow> real list \<Rightarrow> u8 list" where
  "storePixel d i vs =
     d[i := toUint8Clamp (vs ! 0), i + 1 := toUint8Clamp (vs ! 1),
       i + 2 := toUint8Clamp (vs ! 2), i + 3 := toUint8Clamp (vs ! 3)]"

text \<open>\<^verbatim>\<open>for (let i = 0; i < resultData.data.length; i += 4)\<close>. The three buffers have the
  same length, \<open>4 * width * height\<close>: two are read back from the canvas and the third is
  created with the same dimensions.\<close>

function compositeLoop ::
  "ProcessingConfig \<Rightarrow> u8 list \<Rightarrow> u8 list \<Rightarrow> nat \<Rightarrow> u8 list \<times> rng \<Rightarrow> u8 list \<times> rng" where
  "compositeLoop config surfaceData hiddenData i st =
     (case st of (resultData, g) \<Rightarrow>
        if i < length resultData
        then (case dither config g (sample surfaceData i) (sample hiddenData i) of
                ((A, B), g') \<Rightarrow>
                  compositeLoop config surfaceData hiddenData (i + 4)
                    (storePixel resultData i (pixelValues config A B), g'))
        else (resultData, g))"
  by pat_completeness auto
termination
  by (relation "measure (\<lambda>(config, surfaceData, hiddenData, i, st). length (fst st) - i)")
     (auto simp: storePixel_def)

declare compositeLoop.simps [simp del]

section \<open>Steganographic encoder\<close>

text \<open>\<^verbatim>\<open>writeBit\<close>: the state is the buffer and \<^verbatim>\<open>bitCursor\<close>;
  \<^verbatim>\<open>totalCapacityBits\<close> is \<^verbatim>\<open>data.length / 4 * 3\<close>. The bitwise operators work on
  32-bit integers; the byte read is in [0, 255], so the value stored is.\<close>

definition totalCapacityBits :: "u8 list \<Rightarrow> real" where
  "totalCapacityBits d = real (length d) / 4 * 3"

definition writeBit :: "real \<Rightarrow> u8 list \<times> nat \<Rightarrow> 32 word \<Rightarrow> u8 list \<times> nat" where
  "writeBit capacity st b =
     (case st of (d, bitCursor) \<Rightarrow>
        if real bitCursor \<ge> capacity then (d, bitCursor)
        else let pixelIndex = bitCursor div 3;
                 channelOffset = bitCursor mod 3;
                 dataIndex = pixelIndex * 4 + channelOffset
             in (d[dataIndex := ucast (((ucast (d ! dataIndex) :: 32 word) AND 0xFE) OR (b AND 1))],
                 Suc bitCursor))"

text \<open>The arguments of the two loops: \<^verbatim>\<open>(length >> i) & 1\<close> for \<open>i < 32\<close> and
  \<^verbatim>\<open>(byte >> j) & 1\<close> for \<open>j < 8\<close>. The operator \<^verbatim>\<open>>>\<close> takes its left operand as a
  signed 32-bit integer and keeps the sign.\<close>

definition lengthBits :: "nat \<Rightarrow> 32 word list" where
  "lengthBits n = map (\<lambda>i. signed_drop_bit i (word_of_nat n) AND 1) [0..<32]"

definition byteBits :: "u8 \<Rightarrow> 32 word list" where
  "byteBits byte = map (\<lambda>j. signed_drop_bit j (ucast byte) AND 1) [0..<8]"

text \<open>\<^verbatim>\<open>TextEncoder.encode\<close>: the text is held as its UTF-8 bytes.\<close>

definition encode :: "string \<Rightarrow> u8 list" where
  "encode text = map of_char text"

definition embedSteganography :: "u8 list \<Rightarrow> string \<Rightarrow> u8 list" where
  "embedSteganography d text =
     (if text = [] then d
      else let bytes = encode text;
               capacity = totalCapacityBits d;
               st1 = foldl (writeBit capacity) (d, 0) (lengthBits (length bytes));
               st2 = foldl (\<lambda>st byte. foldl (writeBit capacity) st (byteBits byte)) st1 bytes
           in fst st2)"

section \<open>The pipeline from the sampled buffers on\<close>

text \<open>\<^verbatim>\<open>generateMirageTank\<close> after the two read-backs from the canvas: the output buffer
  is created (all bytes 0), filled by the pixel loop and, when the payload is not empty,
  handed to the encoder.\<close>

definition generateMirageTank ::
  "ProcessingConfig \<Rightarrow> rng \<Rightarrow> u8 list \<Rightarrow> u8 list \<Rightarrow> u8 list \<times> rng" where
  "generateMirageTank config g surfaceData hiddenData =
     (case compositeLoop config surfaceData hiddenData 0
             (replicate (length surfaceData) 0, g) of
        (resultData, g') \<Rightarrow>
          (if steganography config \<noteq> []
           then embedSteganography resultData (steganography config)
           else resultData, g'))"

section \<open>Stream format and symmetric extraction\<close>

text \<open>The format in the words of the specification, apart from the encoder: the stream
  has \<open>32 + 8 * n\<close> bits for a payload of \<open>n\<close> bytes; its bit \<open>i\<close> is bit \<open>i\<close> of the
  length for \<open>i < 32\<close>, and after that bit \<open>(i - 32) mod 8\<close> of byte \<open>(i - 32) div 8\<close> of the
  payload. The repository has no decoder. The extraction follows the same words: bit \<open>i\<close>
  is the least significant bit of channel \<open>i mod 3\<close> of pixel \<open>i div 3\<close>; the first 32
  bits, low bit first, are the length; each following group of 8 bits, low bit first, is
  a byte.\<close>

definition spec_requiredBits :: "string \<Rightarrow> nat" where
  "spec_requiredBits text = 32 + 8 * length text"

definition spec_streamBit :: "string \<Rightarrow> nat \<Rightarrow> bool" where
  "spec_streamBit text i =
     (if i < 32 then bit (length text) i
      else bit (of_char (text ! ((i - 32) div 8)) :: nat) ((i - 32) mod 8))"

definition spec_readBit :: "u8 list \<Rightarrow> nat \<Rightarrow> nat" where
  "spec_readBit d i = unat (d ! (4 * (i div 3) + i mod 3) AND 1)"

definition spec_readBits :: "u8 list \<Rightarrow> nat \<Rightarrow> nat \<Rightarrow> nat" where
  "spec_readBits d start n = (\<Sum>k \<leftarrow> [0..<n]. spec_readBit d (start + k) * 2 ^ k)"

definition spec_extractLength :: "u8 list \<Rightarrow> nat" where
  "spec_extractLength d = spec_readBits d 0 32"

definition spec_extractBytes :: "u8 list \<Rightarrow> nat list" where
  "spec_extractBytes d =
     map (\<lambda>k. spec_readBits d (32 + 8 * k) 8) [0..<spec_extractLength d]"

section \<open>Configurations used in the examples\<close>

text \<open>\<^verbatim>\<open>INITIAL_CONFIG\<close> of \<^verbatim>\<open>src/App.tsx\<close>, the product defaults, and variations: the
  defaults without dithering in grayscale and in colour mode, and the identity remap
  (\<open>surfaceMin = 0\<close>, \<open>hiddenMax = 255\<close>) without dithering in both modes.\<close>

definition INITIAL_CONFIG :: ProcessingConfig where
  "INITIAL_CONFIG =
     \<lparr> surfaceMin = 160, hiddenMax = 100, grayscale = True, dithering = lit_0_2,
       steganography = [], width = None, height = None \<rparr>"

definition defaultsNoDither :: ProcessingConfig where
  "defaultsNoDither = INITIAL_CONFIG\<lparr> dithering := 0 \<rparr>"


definition identityGray :: ProcessingConfig where
  "identityGray =
     \<lparr> surfaceMin = 0, hiddenMax = 255, grayscale = True, dithering = 0,
       steganography = [], width = None, height = None \<rparr>"

definition identityColor :: ProcessingConfig where
  "identityColor = identityGray\<lparr> grayscale := False \<rparr>"

definition rngA :: rng where
  "rngA = (\<lambda>n. 1 / 4, 0)"

definition rngB :: rng where
  "rngB = (\<lambda>n. 3 / 4, 7)"

section \<open>Notions used in the statements about the encoder\<close>

text \<open>The byte that carries bit \<open>i\<close> (\<^verbatim>\<open>dataIndex\<close> in \<^verbatim>\<open>writeBit\<close>), the byte that
  \<^verbatim>\<open>writeBit\<close> stores, and the sequence of the bits that the two loops of
  \<^verbatim>\<open>embedSteganography\<close> hand to \<^verbatim>\<open>writeBit\<close>, in order.\<close>

definition channelIndex :: "nat \<Rightarrow> nat" where
  "channelIndex i = (i div 3) * 4 + i mod 3"

definition setLsb :: "u8 \<Rightarrow> 32 word \<Rightarrow> u8" where
  "setLsb x b = ucast (((ucast x :: 32 word) AND 0xFE) OR (b AND 1))"

definition payloadBits :: "string \<Rightarrow> 32 word list" where
  "payloadBits text = lengthBits (length (encode text)) @ concat (map byteBits (encode text))"

section \<open>Properties of the rounding\<close>

subsection \<open>Powers of two and exponents\<close>

lemma pow2_powr: "pow2 e = 2 powr (real_of_int e)"
proof (cases "0 \<le> e")
  case True
  then show ?thesis
    by (simp add: pow2_def powr_realpow [symmetric])
next
  case False
  then have r: "real (nat (- e)) = - real_of_int e"
    by simp
  have "(2::real) ^ nat (- e) = 2 powr real (nat (- e))"
    by (simp add: powr_realpow)
  then have "(2::real) ^ nat (- e) = 2 powr (- real_of_int e)"
    unfolding r .
  moreover have "2 powr (real_of_int e) = 1 / 2 powr (- real_of_int e)"
    using powr_minus_divide [of 2 "- real_of_int e"] by simp
  ultimately show ?thesis using False
    by (simp add: pow2_def)
qed

lemma pow2_pos: "0 < pow2 e"
  by (simp add: pow2_powr)

lemma pow2_add: "pow2 (a + b) = pow2 a * pow2 b"
  by (simp add: pow2_powr powr_add)

lemma pow2_diff: "pow2 (a - b) = pow2 a / pow2 b"
  by (simp add: pow2_powr powr_diff)

lemma pow2_mono: "a \<le> b \<Longrightarrow> pow2 a \<le> pow2 b"
  by (simp add: pow2_powr)

lemma pow2_less: "pow2 a < pow2 b \<longleftrightarrow> a < b"
  by (simp add: pow2_powr)

lemma pow2_nat: "pow2 (int n) = 2 ^ n"
  by (simp add: pow2_def)

lemma floorLog2_nonneg: "0 \<le> floorLog2 n"
proof (induction n rule: floorLog2.induct)
  case (1 n)
  then show ?case
    by (cases "n < 2") (simp_all add: floorLog2.simps [of n])
qed

lemma floorLog2_bounds:
  "0 < n \<Longrightarrow> 2 ^ nat (floorLog2 n) \<le> n \<and> n < 2 ^ Suc (nat (floorLog2 n))"
proof (induction n rule: floorLog2.induct)
  case (1 n)
  show ?case
  proof (cases "n < 2")
    case True
    with "1.prems" show ?thesis
      by (simp add: floorLog2.simps [of n])
  next
    case False
    then have "0 < n div 2" by simp
    with "1.IH" False
    have ih: "2 ^ nat (floorLog2 (n div 2)) \<le> n div 2"
      "n div 2 < 2 ^ Suc (nat (floorLog2 (n div 2)))"
      by simp_all
    have k: "nat (floorLog2 (n div 2) + 1) = Suc (nat (floorLog2 (n div 2)))"
      using floorLog2_nonneg [of "n div 2"] by simp
    have "floorLog2 n = floorLog2 (n div 2) + 1"
      using False by (simp add: floorLog2.simps [of n])
    then have e: "nat (floorLog2 n) = Suc (nat (floorLog2 (n div 2)))"
      using k by simp
    show ?thesis
      unfolding e using ih by simp linarith
  qed
qed

lemma floorLog2_bounds_real:
  assumes "0 < n"
  shows "pow2 (floorLog2 n) \<le> real_of_int n" "real_of_int n + 1 \<le> pow2 (floorLog2 n + 1)"
proof -
  from floorLog2_bounds [OF assms]
  have a: "2 ^ nat (floorLog2 n) \<le> n" and b: "n + 1 \<le> 2 ^ Suc (nat (floorLog2 n))"
    by simp_all
  have k: "nat (floorLog2 n + 1) = Suc (nat (floorLog2 n))"
    using floorLog2_nonneg [of n] by simp
  have "real_of_int (2 ^ nat (floorLog2 n)) \<le> real_of_int n"
    using a by (simp only: of_int_le_iff)
  then show "pow2 (floorLog2 n) \<le> real_of_int n"
    using floorLog2_nonneg [of n] by (simp add: pow2_def)
  have "real_of_int (n + 1) \<le> real_of_int (2 ^ Suc (nat (floorLog2 n)))"
    using b by (simp only: of_int_le_iff)
  then show "real_of_int n + 1 \<le> pow2 (floorLog2 n + 1)"
    using floorLog2_nonneg [of n] by (simp add: pow2_def k)
qed

lemma pow2_neg: "pow2 (- e) = 1 / pow2 e"
  using pow2_diff [of 0 e] by (simp add: pow2_def)

lemma pow2_neg_nat: "pow2 (- int k) = 1 / 2 ^ k"
  by (simp add: pow2_neg pow2_nat)

lemma ilog2_bounds:
  assumes "0 < x"
  shows "pow2 (ilog2 x) \<le> x \<and> x < pow2 (ilog2 x + 1)"
proof (cases "1 \<le> x")
  case True
  define n where "n = \<lfloor>x\<rfloor>"
  have n: "0 < n" "real_of_int n \<le> x" "x < real_of_int n + 1"
    using True unfolding n_def by (simp, linarith+)
  note b = floorLog2_bounds_real [OF n(1)]
  have "ilog2 x = floorLog2 n" using True by (simp add: ilog2_def n_def)
  then show ?thesis
    using n b by simp
next
  case False
  define N where "N = \<lceil>1 / x\<rceil>"
  define n where "n = N - 1"
  have y: "1 < 1 / x" using assms False by simp
  then have N2: "2 \<le> N" unfolding N_def by linarith
  have n: "0 < n" "real_of_int n < 1 / x" "1 / x \<le> real_of_int n + 1"
    using N2 unfolding n_def N_def by (simp, linarith+)
  note b = floorLog2_bounds_real [OF n(1)]
  have il: "ilog2 x = - (floorLog2 n + 1)"
    using False by (simp add: ilog2_def n_def N_def)
  have p1: "pow2 (ilog2 x) = 1 / pow2 (floorLog2 n + 1)"
    unfolding il by (rule pow2_neg)
  have "ilog2 x + 1 = - floorLog2 n"
    unfolding il by simp
  then have p2: "pow2 (ilog2 x + 1) = 1 / pow2 (floorLog2 n)"
    by (simp only: pow2_neg)
  have "1 / x \<le> pow2 (floorLog2 n + 1)" using n b by linarith
  then have lo: "1 / pow2 (floorLog2 n + 1) \<le> x"
    using assms pow2_pos [of "floorLog2 n + 1"] by (simp add: field_simps)
  have "pow2 (floorLog2 n) < 1 / x" using n b by linarith
  then have hi: "x < 1 / pow2 (floorLog2 n)"
    using assms pow2_pos [of "floorLog2 n"] by (simp add: field_simps)
  show ?thesis unfolding p1 p2 using lo hi by simp
qed

lemma ilog2_unique:
  assumes "0 < x" "pow2 k \<le> x" "x < pow2 (k + 1)"
  shows "ilog2 x = k"
proof -
  note b = ilog2_bounds [OF assms(1)]
  have "pow2 k < pow2 (ilog2 x + 1)" using assms(2) b by linarith
  then have "k < ilog2 x + 1" by (simp only: pow2_less)
  moreover have "pow2 (ilog2 x) < pow2 (k + 1)" using assms(3) b by linarith
  then have "ilog2 x < k + 1" by (simp only: pow2_less)
  ultimately show ?thesis by linarith
qed

lemma ilog2_mono:
  assumes "0 < x" "x \<le> y"
  shows "ilog2 x \<le> ilog2 y"
proof -
  have "0 < y" using assms by linarith
  note bx = ilog2_bounds [OF assms(1)] and by' = ilog2_bounds [OF \<open>0 < y\<close>]
  have "pow2 (ilog2 x) < pow2 (ilog2 y + 1)" using bx by' assms(2) by linarith
  then have "ilog2 x < ilog2 y + 1" by (simp only: pow2_less)
  then show ?thesis by linarith
qed

subsection \<open>Rounding to an integer\<close>

lemma rne_of_int: "rne (real_of_int n) = n"
  by (simp add: rne_def)

lemma rne_near: "\<bar>real_of_int (rne x) - x\<bar> \<le> 1/2"
  unfolding rne_def Let_def by (auto simp: abs_if) linarith+

lemma rne_mono:
  assumes "x \<le> y"
  shows "rne x \<le> rne y"
proof (rule ccontr)
  assume "\<not> rne x \<le> rne y"
  then have gt: "rne y + 1 \<le> rne x" by linarith
  have nx: "\<bar>real_of_int (rne x) - x\<bar> \<le> 1/2" and ny: "\<bar>real_of_int (rne y) - y\<bar> \<le> 1/2"
    by (rule rne_near)+
  from gt have g: "real_of_int (rne y) + 1 \<le> real_of_int (rne x)"
    by (metis of_int_1 of_int_add of_int_le_iff)
  from nx ny g assms have xy: "x = y" and hx: "real_of_int (rne x) = x + 1/2"
    and hy: "real_of_int (rne y) = y - 1/2" and r: "rne x = rne y + 1"
    by (auto simp: abs_if split: if_splits)
  have fx: "\<lfloor>x\<rfloor> = rne x - 1"
    using hx by linarith
  have tie: "\<not> x < real_of_int \<lfloor>x\<rfloor> + 1/2" "\<not> real_of_int \<lfloor>x\<rfloor> + 1/2 < x"
    unfolding fx using hx by simp_all
  have "rne x = (if even \<lfloor>x\<rfloor> then \<lfloor>x\<rfloor> else \<lfloor>x\<rfloor> + 1)"
    using tie by (simp add: rne_def Let_def)
  moreover have "rne y = (if even \<lfloor>x\<rfloor> then \<lfloor>x\<rfloor> else \<lfloor>x\<rfloor> + 1)"
    using tie xy by (simp add: rne_def Let_def)
  ultimately show False using r by simp
qed

lemma rne_ge:
  assumes "real_of_int n \<le> x"
  shows "n \<le> rne x"
  using rne_mono [OF assms] by (simp add: rne_of_int)

lemma rne_le:
  assumes "x \<le> real_of_int n"
  shows "rne x \<le> n"
  using rne_mono [OF assms] by (simp add: rne_of_int)


subsection \<open>Rounding to binary64\<close>

lemma expo_ge: "- 1074 \<le> expo x"
  by (simp add: expo_def)

lemma scaled_bounds:
  assumes "0 < x"
  shows "x / pow2 (expo x) < 2 ^ 53"
    and "- 1022 \<le> ilog2 x \<Longrightarrow> 2 ^ 52 \<le> x / pow2 (expo x)"
proof -
  note b = ilog2_bounds [OF assms]
  have p53: "pow2 (expo x + 53) = pow2 (expo x) * 2 ^ 53"
    using pow2_add [of "expo x" 53] by (simp add: pow2_def)
  have "ilog2 x + 1 \<le> expo x + 53" by (simp add: expo_def)
  then have "pow2 (ilog2 x + 1) \<le> pow2 (expo x + 53)" by (rule pow2_mono)
  then have "x < pow2 (expo x) * 2 ^ 53" using b p53 by linarith
  then show "x / pow2 (expo x) < 2 ^ 53"
    using pow2_pos [of "expo x"] by (simp add: field_simps)
  assume "- 1022 \<le> ilog2 x"
  then have e: "expo x + 52 = ilog2 x" by (simp add: expo_def)
  have "pow2 (expo x + 52) = pow2 (expo x) * 2 ^ 52"
    using pow2_add [of "expo x" 52] by (simp add: pow2_def)
  then have "pow2 (expo x) * 2 ^ 52 \<le> x" using b e by simp
  then show "2 ^ 52 \<le> x / pow2 (expo x)"
    using pow2_pos [of "expo x"] by (simp add: field_simps)
qed

lemma rne_scaled_bounds:
  assumes "0 < x"
  shows "0 \<le> rne (x / pow2 (expo x))" "rne (x / pow2 (expo x)) \<le> 2 ^ 53"
    and "- 1022 \<le> ilog2 x \<Longrightarrow> 2 ^ 52 \<le> rne (x / pow2 (expo x))"
proof -
  have "real_of_int 0 \<le> x / pow2 (expo x)"
    using assms pow2_pos [of "expo x"] by simp
  then show "0 \<le> rne (x / pow2 (expo x))" by (rule rne_ge)
  have "x / pow2 (expo x) \<le> real_of_int (2 ^ 53)"
    using scaled_bounds(1) [OF assms] by simp
  then show "rne (x / pow2 (expo x)) \<le> 2 ^ 53" by (rule rne_le)
  assume "- 1022 \<le> ilog2 x"
  then have "real_of_int (2 ^ 52) \<le> x / pow2 (expo x)"
    using scaled_bounds(2) [OF assms] by simp
  then show "2 ^ 52 \<le> rne (x / pow2 (expo x))" by (rule rne_ge)
qed

lemma b64pos_nonneg:
  assumes "0 < x"
  shows "0 \<le> b64pos x"
  unfolding b64pos_def using rne_scaled_bounds(1) [OF assms] pow2_pos [of "expo x"] by simp

lemma b64pos_upper:
  assumes "0 < x"
  shows "b64pos x \<le> pow2 (expo x + 53)"
proof -
  have "real_of_int (rne (x / pow2 (expo x))) \<le> 2 ^ 53"
    using rne_scaled_bounds(2) [OF assms] by (metis of_int_le_iff of_int_numeral of_int_power)
  then have "b64pos x \<le> 2 ^ 53 * pow2 (expo x)"
    unfolding b64pos_def using pow2_pos [of "expo x"] by simp
  moreover have "pow2 (expo x + 53) = pow2 (expo x) * 2 ^ 53"
    using pow2_add [of "expo x" 53] by (simp add: pow2_def)
  ultimately show ?thesis by simp
qed

lemma b64pos_lower:
  assumes "0 < x" "- 1022 \<le> ilog2 x"
  shows "pow2 (ilog2 x) \<le> b64pos x"
proof -
  have "2 ^ 52 \<le> real_of_int (rne (x / pow2 (expo x)))"
    using rne_scaled_bounds(3) [OF assms] by (metis of_int_le_iff of_int_numeral of_int_power)
  then have "2 ^ 52 * pow2 (expo x) \<le> b64pos x"
    unfolding b64pos_def using pow2_pos [of "expo x"] by simp
  moreover have "pow2 (expo x + 52) = pow2 (expo x) * 2 ^ 52"
    using pow2_add [of "expo x" 52] by (simp add: pow2_def)
  moreover have "expo x + 52 = ilog2 x" using assms(2) by (simp add: expo_def)
  ultimately show ?thesis by simp
qed

lemma b64pos_mono:
  assumes "0 < x" "x \<le> y"
  shows "b64pos x \<le> b64pos y"
proof -
  have y: "0 < y" using assms by linarith
  have le: "expo x \<le> expo y"
    using ilog2_mono [OF assms] by (simp add: expo_def)
  show ?thesis
  proof (cases "expo x = expo y")
    case True
    have "x / pow2 (expo y) \<le> y / pow2 (expo y)"
      using assms(2) pow2_pos [of "expo y"] by (simp add: divide_right_mono)
    then have "rne (x / pow2 (expo y)) \<le> rne (y / pow2 (expo y))"
      by (rule rne_mono)
    then show ?thesis
      unfolding b64pos_def True using pow2_pos [of "expo y"] by simp
  next
    case False
    then have lt: "expo x + 1 \<le> expo y" using le by linarith
    then have n: "- 1022 \<le> ilog2 y" and ey: "expo y + 52 = ilog2 y"
      using expo_ge [of x] by (simp_all add: expo_def max_def split: if_splits)
    have "b64pos x \<le> pow2 (expo x + 53)" by (rule b64pos_upper [OF assms(1)])
    also have "\<dots> \<le> pow2 (ilog2 y)"
      using lt ey by (intro pow2_mono) linarith
    also have "\<dots> \<le> b64pos y" by (rule b64pos_lower [OF y n])
    finally show ?thesis .
  qed
qed

lemma binary64_0: "binary64 0 = 0"
  by (simp add: binary64_def)


lemma binary64_nonneg:
  assumes "0 \<le> x"
  shows "0 \<le> binary64 x"
  using assms b64pos_nonneg [of x] by (simp add: binary64_def)

lemma binary64_nonpos:
  assumes "x \<le> 0"
  shows "binary64 x \<le> 0"
  using assms b64pos_nonneg [of "- x"] by (simp add: binary64_def)

lemma binary64_mono:
  assumes "x \<le> y"
  shows "binary64 x \<le> binary64 y"
proof -
  consider "0 < x" | "x \<le> 0" "0 \<le> y" | "y < 0"
    using assms by linarith
  then show ?thesis
  proof cases
    case 1
    then show ?thesis using assms b64pos_mono [of x y] by (simp add: binary64_def)
  next
    case 2
    then show ?thesis using binary64_nonpos [of x] binary64_nonneg [of y] by linarith
  next
    case 3
    then have "b64pos (- y) \<le> b64pos (- x)" using assms by (intro b64pos_mono) simp_all
    then show ?thesis using 3 assms by (simp add: binary64_def)
  qed
qed


lemma pow2_diff_nat:
  assumes "0 \<le> d"
  shows "pow2 (e + d) = pow2 e * 2 ^ nat d"
proof -
  have "pow2 d = 2 ^ nat d" using assms by (simp add: pow2_def)
  then show ?thesis by (simp add: pow2_add)
qed

lemma b64pos_representable:
  assumes "0 < x" "x = real_of_int m * pow2 e" "expo x \<le> e"
  shows "b64pos x = x"
proof -
  define d where "d = e - expo x"
  have d: "0 \<le> d" "e = expo x + d" using assms(3) by (simp_all add: d_def)
  define s where "s = pow2 (expo x)"
  have s: "0 < s" unfolding s_def by (rule pow2_pos)
  have "pow2 e = pow2 (expo x) * 2 ^ nat d"
    using pow2_diff_nat [OF d(1), of "expo x"] d(2) by simp
  then have "x = real_of_int m * (s * 2 ^ nat d)"
    using assms(2) by (simp add: s_def)
  then have "x / s = real_of_int m * 2 ^ nat d"
    using s by simp
  then have "x / pow2 (expo x) = real_of_int m * 2 ^ nat d"
    by (simp add: s_def)
  also have "\<dots> = real_of_int (m * 2 ^ nat d)" by simp
  finally have sc: "x / pow2 (expo x) = real_of_int (m * 2 ^ nat d)" .
  have "real_of_int (rne (x / pow2 (expo x))) = x / pow2 (expo x)"
    unfolding sc by (simp only: rne_of_int)
  then show ?thesis
    unfolding b64pos_def using pow2_pos [of "expo x"] by simp
qed

lemma ilog2_less:
  assumes "0 < x" "x < pow2 k"
  shows "ilog2 x < k"
proof -
  have "pow2 (ilog2 x) < pow2 k" using ilog2_bounds [OF assms(1)] assms(2) by linarith
  then show ?thesis by (simp only: pow2_less)
qed

lemma ilog2_pow2: "ilog2 (pow2 k) = k"
proof (rule ilog2_unique)
  show "0 < pow2 k" by (rule pow2_pos)
  show "pow2 k \<le> pow2 k" by simp
  show "pow2 k < pow2 (k + 1)" by (simp only: pow2_less)
qed

lemma binary64_of_int_pos:
  assumes "0 < n" "n \<le> 2 ^ 53"
  shows "b64pos (real_of_int n) = real_of_int n"
proof (cases "n = 2 ^ 53")
  case True
  have x: "real_of_int n = pow2 53" unfolding True by (simp add: pow2_def)
  have "expo (real_of_int n) = 1" unfolding x expo_def ilog2_pow2 by simp
  moreover have "real_of_int n = real_of_int (2 ^ 52) * pow2 1"
    unfolding True by (simp add: pow2_def)
  ultimately show ?thesis
    using assms(1) by (intro b64pos_representable [where m = "2 ^ 52" and e = 1]) simp_all
next
  case False
  then have "n < 2 ^ 53" using assms(2) by linarith
  then have "real_of_int n < 2 ^ 53"
    by (metis of_int_less_iff of_int_numeral of_int_power)
  then have "real_of_int n < pow2 53" by (simp add: pow2_def)
  then have "ilog2 (real_of_int n) < 53" using assms(1) by (intro ilog2_less) simp_all
  then have "expo (real_of_int n) \<le> 0" by (simp add: expo_def)
  moreover have "real_of_int n = real_of_int n * pow2 0" by (simp add: pow2_def)
  ultimately show ?thesis
    using assms(1) by (intro b64pos_representable [where m = n and e = 0]) simp_all
qed

lemma binary64_of_int:
  assumes "\<bar>n\<bar> \<le> 2 ^ 53"
  shows "binary64 (real_of_int n) = real_of_int n"
proof -
  consider "n = 0" | "0 < n" | "n < 0" by linarith
  then show ?thesis
  proof cases
    case 1
    then show ?thesis by (simp add: binary64_def)
  next
    case 2
    then show ?thesis using assms binary64_of_int_pos [of n] by (simp add: binary64_def)
  next
    case 3
    then have "b64pos (real_of_int (- n)) = real_of_int (- n)"
      using assms by (intro binary64_of_int_pos) simp_all
    then show ?thesis using 3 by (simp add: binary64_def)
  qed
qed

lemma binary64_numeral:
  assumes "numeral k \<le> (2::int) ^ 53"
  shows "binary64 (numeral k) = numeral k"
  using binary64_of_int [of "numeral k"] assms by simp




lemma binary64_eval:
  assumes "0 < x" "2 ^ 52 \<le> x * 2 ^ n" "x * 2 ^ n < 2 ^ 53" "n \<le> 1074"
      and "rne (x * 2 ^ n) = m" "r = real_of_int m / 2 ^ n"
  shows "binary64 x = r"
proof -
  have p: "pow2 (- int n) = 1 / 2 ^ n" by (rule pow2_neg_nat)
  have p52: "pow2 (52 - int n) = 2 ^ 52 / 2 ^ n"
    using pow2_diff [of 52 "int n"] by (simp add: pow2_nat) (simp add: pow2_def)
  have p53: "pow2 (52 - int n + 1) = 2 ^ 53 / 2 ^ n"
    using pow2_diff [of 53 "int n"] by (simp add: pow2_nat) (simp add: pow2_def)
  have "ilog2 x = 52 - int n"
  proof (rule ilog2_unique [OF assms(1)])
    show "pow2 (52 - int n) \<le> x" unfolding p52 using assms(2) by (simp add: field_simps)
    show "x < pow2 (52 - int n + 1)" unfolding p53 using assms(3) by (simp add: field_simps)
  qed
  then have "expo x = - int n" using assms(4) by (simp add: expo_def)
  then have "b64pos x = real_of_int (rne (x * 2 ^ n)) / 2 ^ n"
    by (simp add: b64pos_def p)
  then show ?thesis using assms by (simp add: binary64_def)
qed

subsection \<open>Relative error\<close>



section \<open>Binary64 results of the operations used in the examples\<close>

lemma ev_1: "lit_0_2126 = (1914930561557935 / 9007199254740992)"
  unfolding lit_0_2126_def
  by (rule binary64_eval [where n = 55 and m = 7659722246231740]) (simp_all add: rne_def)

lemma ev_2: "lit_0_7152 = (6441948906990757 / 9007199254740992)"
  unfolding lit_0_7152_def
  by (rule binary64_eval [where n = 53 and m = 6441948906990757]) (simp_all add: rne_def)

lemma ev_3: "lit_0_0722 = (5202558289538397 / 72057594037927936)"
  unfolding lit_0_0722_def
  by (rule binary64_eval [where n = 56 and m = 5202558289538397]) (simp_all add: rne_def)

lemma ev_4: "fmul (1914930561557935 / 9007199254740992) 128 = (1914930561557935 / 70368744177664)"
  unfolding fmul_def
  by (rule binary64_eval [where n = 48 and m = 7659722246231740]) (simp_all add: rne_def)

lemma ev_5: "fmul (6441948906990757 / 9007199254740992) 128 = (6441948906990757 / 70368744177664)"
  unfolding fmul_def
  by (rule binary64_eval [where n = 46 and m = 6441948906990757]) (simp_all add: rne_def)

lemma ev_6: "fadd (1914930561557935 / 70368744177664) (6441948906990757 / 70368744177664) = (2089219867137173 / 17592186044416)"
  unfolding fadd_def
  by (rule binary64_eval [where n = 46 and m = 8356879468548692]) (simp_all add: rne_def)

lemma ev_7: "fmul (5202558289538397 / 72057594037927936) 128 = (5202558289538397 / 562949953421312)"
  unfolding fmul_def
  by (rule binary64_eval [where n = 49 and m = 5202558289538397]) (simp_all add: rne_def)

lemma ev_8: "fadd (2089219867137173 / 17592186044416) (5202558289538397 / 562949953421312) = 128"
  unfolding fadd_def
  by (rule binary64_eval [where n = 46 and m = 9007199254740992]) (simp_all add: rne_def)

lemma ev_9: "fsub 255 160 = 95"
  unfolding fsub_def
  by (rule binary64_eval [where n = 46 and m = 6685030696878080]) (simp_all add: rne_def)

lemma ev_10: "fdiv 95 255 = (838905812941563 / 2251799813685248)"
  unfolding fdiv_def
  by (rule binary64_eval [where n = 54 and m = 6711246503532504]) (simp_all add: rne_def)

lemma ev_11: "fmul 128 (838905812941563 / 2251799813685248) = (838905812941563 / 17592186044416)"
  unfolding fmul_def
  by (rule binary64_eval [where n = 47 and m = 6711246503532504]) (simp_all add: rne_def)

lemma ev_12: "fadd (838905812941563 / 17592186044416) 160 = (3653655580048123 / 17592186044416)"
  unfolding fadd_def
  by (rule binary64_eval [where n = 45 and m = 7307311160096246]) (simp_all add: rne_def)

lemma ev_13: "fdiv 100 255 = (7064470003718425 / 18014398509481984)"
  unfolding fdiv_def
  by (rule binary64_eval [where n = 54 and m = 7064470003718425]) (simp_all add: rne_def)

lemma ev_14: "fmul 128 (7064470003718425 / 18014398509481984) = (7064470003718425 / 140737488355328)"
  unfolding fmul_def
  by (rule binary64_eval [where n = 47 and m = 7064470003718425]) (simp_all add: rne_def)

lemma ev_15: "fsub (3653655580048123 / 17592186044416) (7064470003718425 / 140737488355328) = (346324603697915 / 2199023255552)"
  unfolding fsub_def
  by (rule binary64_eval [where n = 45 and m = 5541193659166640]) (simp_all add: rne_def)

lemma ev_16: "fsub 255 (346324603697915 / 2199023255552) = (214426326467845 / 2199023255552)"
  unfolding fsub_def
  by (rule binary64_eval [where n = 46 and m = 6861642446971040]) (simp_all add: rne_def)

lemma ev_17: "fmul (7064470003718425 / 140737488355328) 255 = 12800"
  unfolding fmul_def
  by (rule binary64_eval [where n = 39 and m = 7036874417766400]) (simp_all add: rne_def)

lemma ev_18: "fdiv 12800 (214426326467845 / 2199023255552) = (144331628918595 / 1099511627776)"
  unfolding fdiv_def
  by (rule binary64_eval [where n = 45 and m = 4618612125395040]) (simp_all add: rne_def)

lemma ev_19: "fmul (1914930561557935 / 9007199254740992) 255 = (7629801456207397 / 140737488355328)"
  unfolding fmul_def
  by (rule binary64_eval [where n = 47 and m = 7629801456207397]) (simp_all add: rne_def)

lemma ev_20: "fmul (6441948906990757 / 9007199254740992) 255 = (802098130509103 / 4398046511104)"
  unfolding fmul_def
  by (rule binary64_eval [where n = 45 and m = 6416785044072824]) (simp_all add: rne_def)

lemma ev_21: "fadd (7629801456207397 / 140737488355328) (802098130509103 / 4398046511104) = (8324235408124673 / 35184372088832)"
  unfolding fadd_def
  by (rule binary64_eval [where n = 45 and m = 8324235408124673]) (simp_all add: rne_def)

lemma ev_22: "fmul (5202558289538397 / 72057594037927936) 255 = (323889737263743 / 17592186044416)"
  unfolding fmul_def
  by (rule binary64_eval [where n = 48 and m = 5182235796219888]) (simp_all add: rne_def)

lemma ev_23: "fadd (8324235408124673 / 35184372088832) (323889737263743 / 17592186044416) = (8972014882652159 / 35184372088832)"
  unfolding fadd_def
  by (rule binary64_eval [where n = 45 and m = 8972014882652159]) (simp_all add: rne_def)

lemma ev_24: "fmul (8972014882652159 / 35184372088832) (838905812941563 / 2251799813685248) = (6685030696878079 / 70368744177664)"
  unfolding fmul_def
  by (rule binary64_eval [where n = 46 and m = 6685030696878079]) (simp_all add: rne_def)

lemma ev_25: "fadd (6685030696878079 / 70368744177664) 160 = 255"
  unfolding fadd_def
  by (rule binary64_eval [where n = 45 and m = 8972014882652160]) (simp_all add: rne_def)

lemma ev_26: "fmul (1914930561557935 / 9007199254740992) 2 = (1914930561557935 / 4503599627370496)"
  unfolding fmul_def
  by (rule binary64_eval [where n = 54 and m = 7659722246231740]) (simp_all add: rne_def)

lemma ev_27: "fmul (6441948906990757 / 9007199254740992) 2 = (6441948906990757 / 4503599627370496)"
  unfolding fmul_def
  by (rule binary64_eval [where n = 52 and m = 6441948906990757]) (simp_all add: rne_def)

lemma ev_28: "fadd (1914930561557935 / 4503599627370496) (6441948906990757 / 4503599627370496) = (2089219867137173 / 1125899906842624)"
  unfolding fadd_def
  by (rule binary64_eval [where n = 52 and m = 8356879468548692]) (simp_all add: rne_def)

lemma ev_29: "fmul (5202558289538397 / 72057594037927936) 2 = (5202558289538397 / 36028797018963968)"
  unfolding fmul_def
  by (rule binary64_eval [where n = 55 and m = 5202558289538397]) (simp_all add: rne_def)

lemma ev_30: "fadd (2089219867137173 / 1125899906842624) (5202558289538397 / 36028797018963968) = 2"
  unfolding fadd_def
  by (rule binary64_eval [where n = 52 and m = 9007199254740992]) (simp_all add: rne_def)

lemma ev_31: "fmul 2 (7064470003718425 / 18014398509481984) = (7064470003718425 / 9007199254740992)"
  unfolding fmul_def
  by (rule binary64_eval [where n = 53 and m = 7064470003718425]) (simp_all add: rne_def)

lemma ev_32: "fsub 255 (7064470003718425 / 9007199254740992) = (8944419296700135 / 35184372088832)"
  unfolding fsub_def
  by (rule binary64_eval [where n = 45 and m = 8944419296700135]) (simp_all add: rne_def)

lemma ev_33: "fsub 255 (8944419296700135 / 35184372088832) = (27595585952025 / 35184372088832)"
  unfolding fsub_def
  by (rule binary64_eval [where n = 53 and m = 7064470003718400]) (simp_all add: rne_def)

lemma ev_34: "fmul (7064470003718425 / 9007199254740992) 255 = 200"
  unfolding fmul_def
  by (rule binary64_eval [where n = 45 and m = 7036874417766400]) (simp_all add: rne_def)

lemma ev_35: "fdiv 200 (27595585952025 / 35184372088832) = (280375465082881 / 1099511627776)"
  unfolding fdiv_def
  by (rule binary64_eval [where n = 45 and m = 8972014882652192]) (simp_all add: rne_def)

lemma ev_36: "fmul 255 (838905812941563 / 2251799813685248) = 95"
  unfolding fmul_def
  by (rule binary64_eval [where n = 46 and m = 6685030696878080]) (simp_all add: rne_def)

lemma ev_37: "fadd 95 160 = 255"
  unfolding fadd_def
  by (rule binary64_eval [where n = 45 and m = 8972014882652160]) (simp_all add: rne_def)

lemma ev_38: "fmul (1914930561557935 / 9007199254740992) 200 = (5984158004868547 / 140737488355328)"
  unfolding fmul_def
  by (rule binary64_eval [where n = 47 and m = 5984158004868547]) (simp_all add: rne_def)

lemma ev_39: "fmul (6441948906990757 / 9007199254740992) 200 = (5032772583586529 / 35184372088832)"
  unfolding fmul_def
  by (rule binary64_eval [where n = 45 and m = 5032772583586529]) (simp_all add: rne_def)

lemma ev_40: "fadd (5984158004868547 / 140737488355328) (5032772583586529 / 35184372088832) = (3264406042401833 / 17592186044416)"
  unfolding fadd_def
  by (rule binary64_eval [where n = 45 and m = 6528812084803666]) (simp_all add: rne_def)

lemma ev_41: "fmul (5202558289538397 / 72057594037927936) 200 = (8128997327403745 / 562949953421312)"
  unfolding fmul_def
  by (rule binary64_eval [where n = 49 and m = 8128997327403745]) (simp_all add: rne_def)

lemma ev_42: "fadd (3264406042401833 / 17592186044416) (8128997327403745 / 562949953421312) = 200"
  unfolding fadd_def
  by (rule binary64_eval [where n = 45 and m = 7036874417766400]) (simp_all add: rne_def)

lemma ev_43: "fsub 255 0 = 255"
  unfolding fsub_def
  by (rule binary64_eval [where n = 45 and m = 8972014882652160]) (simp_all add: rne_def)

lemma ev_44: "fdiv 255 255 = 1"
  unfolding fdiv_def
  by (rule binary64_eval [where n = 52 and m = 4503599627370496]) (simp_all add: rne_def)

lemma ev_45: "fmul 200 1 = 200"
  unfolding fmul_def
  by (rule binary64_eval [where n = 45 and m = 7036874417766400]) (simp_all add: rne_def)

lemma ev_46: "fadd 200 0 = 200"
  unfolding fadd_def
  by (rule binary64_eval [where n = 45 and m = 7036874417766400]) (simp_all add: rne_def)

lemma ev_47: "fmul 200 255 = 51000"
  unfolding fmul_def
  by (rule binary64_eval [where n = 37 and m = 7009386627072000]) (simp_all add: rne_def)

lemma ev_48: "fdiv 51000 255 = 200"
  unfolding fdiv_def
  by (rule binary64_eval [where n = 45 and m = 7036874417766400]) (simp_all add: rne_def)

lemma ev_49: "fdiv 640 427 = (6750125905192313 / 4503599627370496)"
  unfolding fdiv_def
  by (rule binary64_eval [where n = 52 and m = 6750125905192313]) (simp_all add: rne_def)

lemma ev_50: "fdiv 640 (6750125905192313 / 4503599627370496) = (7511863440965631 / 17592186044416)"
  unfolding fdiv_def
  by (rule binary64_eval [where n = 44 and m = 7511863440965631]) (simp_all add: rne_def)

lemma ev_51: "fsub 427 (7511863440965631 / 17592186044416) = (1 / 17592186044416)"
  unfolding fsub_def
  by (rule binary64_eval [where n = 96 and m = 4503599627370496]) (simp_all add: rne_def)

lemma ev_52: "fdiv (1 / 17592186044416) 2 = (1 / 35184372088832)"
  unfolding fdiv_def
  by (rule binary64_eval [where n = 97 and m = 4503599627370496]) (simp_all add: rne_def)

lemma ev_53: "lit_0_2 = (3602879701896397 / 18014398509481984)"
  unfolding lit_0_2_def
  by (rule binary64_eval [where n = 55 and m = 7205759403792794]) (simp_all add: rne_def)

lemma ev_54: "fmul (3602879701896397 / 18014398509481984) 10 = 2"
  unfolding fmul_def
  by (rule binary64_eval [where n = 51 and m = 4503599627370496]) (simp_all add: rne_def)

lemmas ev =
  ev_1 ev_2 ev_3 ev_4 ev_5 ev_6 ev_7 ev_8 ev_9 ev_10
  ev_11 ev_12 ev_13 ev_14 ev_15 ev_16 ev_17 ev_18 ev_19 ev_20
  ev_21 ev_22 ev_23 ev_24 ev_25 ev_26 ev_27 ev_28 ev_29 ev_30
  ev_31 ev_32 ev_33 ev_34 ev_35 ev_36 ev_37 ev_38 ev_39 ev_40
  ev_41 ev_42 ev_43 ev_44 ev_45 ev_46 ev_47 ev_48 ev_49 ev_50
  ev_51 ev_52 ev_53 ev_54

section \<open>Ranges of the remapped values\<close>

lemma remapA_range: "0 \<le> remapA config x \<and> remapA config x \<le> 255"
  by (simp add: remapA_def)

lemma remapB_range: "0 \<le> remapB config x \<and> remapB config x \<le> 255"
  by (simp add: remapB_def)



lemma binary64_255: "binary64 255 = 255"
  by (simp add: binary64_numeral)

lemma alpha_range:
  assumes "0 \<le> b" "b \<le> a" "a \<le> 255"
  shows "0 \<le> fsub 255 (fsub a b) \<and> fsub 255 (fsub a b) \<le> 255"
proof -
  have "0 \<le> fsub a b"
    unfolding fsub_def using assms by (intro binary64_nonneg) simp
  moreover have "fsub a b \<le> binary64 255"
    unfolding fsub_def using assms by (intro binary64_mono) simp
  ultimately have t: "0 \<le> 255 - fsub a b" "255 - fsub a b \<le> 255"
    by (simp_all add: binary64_255)
  have "0 \<le> binary64 (255 - fsub a b)"
    using t(1) by (rule binary64_nonneg)
  moreover have "binary64 (255 - fsub a b) \<le> binary64 255"
    using t(2) by (rule binary64_mono)
  ultimately show ?thesis
    by (simp add: fsub_def binary64_255)
qed

lemma quotient_nonneg:
  assumes "0 \<le> b" "0 < alpha"
  shows "0 \<le> fdiv (fmul b 255) alpha"
proof -
  have "0 \<le> fmul b 255"
    unfolding fmul_def using assms(1) by (intro binary64_nonneg) simp
  then have "0 \<le> fmul b 255 / alpha"
    using assms(2) by simp
  then show ?thesis
    unfolding fdiv_def by (rule binary64_nonneg)
qed

section \<open>Grayscale mode\<close>

lemma grayAlpha_alpha_range:
  assumes "a \<le> 255" "0 \<le> a" "0 \<le> b"
  shows "0 \<le> snd (grayAlpha a b) \<and> snd (grayAlpha a b) \<le> 255"
proof -
  have "0 \<le> dominate a b" "dominate a b \<le> a"
    using assms by (simp_all add: dominate_def)
  from alpha_range [OF this assms(1)] show ?thesis
    by (simp add: grayAlpha_def Let_def)
qed

lemma grayAlpha_gray_nonneg:
  assumes "0 \<le> a" "0 \<le> b"
  shows "0 \<le> fst (grayAlpha a b)"
proof -
  have "0 \<le> dominate a b"
    using assms by (simp add: dominate_def)
  then show ?thesis
    by (simp add: grayAlpha_def Let_def quotient_nonneg)
qed

lemma grayscalePixel_nth:
  "grayscalePixel config (rA, gA, bA) (rB, gB, bB) ! 0
     = fst (grayAlpha (remapA config (luminance rA gA bA)) (remapB config (luminance rB gB bB)))"
  "grayscalePixel config (rA, gA, bA) (rB, gB, bB) ! 1
     = fst (grayAlpha (remapA config (luminance rA gA bA)) (remapB config (luminance rB gB bB)))"
  "grayscalePixel config (rA, gA, bA) (rB, gB, bB) ! 2
     = fst (grayAlpha (remapA config (luminance rA gA bA)) (remapB config (luminance rB gB bB)))"
  "grayscalePixel config (rA, gA, bA) (rB, gB, bB) ! 3
     = snd (grayAlpha (remapA config (luminance rA gA bA)) (remapB config (luminance rB gB bB)))"
  by (simp_all add: grayscalePixel_def Let_def split: prod.split)

lemma grayAlpha_200: "grayAlpha 200 200 = (200, 255)"
  by (simp add: grayAlpha_def dominate_def fsub_def fmul_def fdiv_def binary64_0 binary64_numeral)

text \<open>
  Claim C2. In grayscale mode, for every pixel and every configuration, the alpha value
  \<open>255 - (lumA' - lumB')\<close> computed after the remaps, their clamps and the dominance
  clamp lies in [0, 255]; and when both remapped luminances are 200 the pixel is
  gray 200 with alpha 255. The samples are arbitrary numbers, so the statement covers
  dithered samples too.
\<close>

theorem grayscale_alpha_range:
  "0 \<le> grayscalePixel config (rA, gA, bA) (rB, gB, bB) ! 3
   \<and> grayscalePixel config (rA, gA, bA) (rB, gB, bB) ! 3 \<le> 255
   \<and> (remapA config (luminance rA gA bA) = 200 \<and> remapB config (luminance rB gB bB) = 200
        \<longrightarrow> grayscalePixel config (rA, gA, bA) (rB, gB, bB) = [200, 200, 200, 255])"
proof -
  have "0 \<le> snd (grayAlpha (remapA config (luminance rA gA bA))
                            (remapB config (luminance rB gB bB)))
      \<and> snd (grayAlpha (remapA config (luminance rA gA bA))
                        (remapB config (luminance rB gB bB))) \<le> 255"
    using grayAlpha_alpha_range remapA_range remapB_range by blast
  then show ?thesis
    by (simp add: grayscalePixel_nth) (simp add: grayscalePixel_def grayAlpha_200)
qed

lemma identityGray_remap_200:
  "remapA identityGray (luminance 200 200 200) = 200"
  "remapB identityGray (luminance 200 200 200) = 200"
  by (simp_all add: identityGray_def remapA_def remapB_def scaleA_def scaleB_def offsetA_def
        luminance_def ev)

theorem grayscale_alpha_range_witness:
  "remapA identityGray (luminance 200 200 200) = 200
   \<and> remapB identityGray (luminance 200 200 200) = 200
   \<and> grayscalePixel identityGray (200, 200, 200) (200, 200, 200) = [200, 200, 200, 255]"
  using grayscale_alpha_range [of identityGray 200 200 200 200 200 200]
  by (simp add: identityGray_remap_200)

lemma defaults_white_2:
  "remapA defaultsNoDither (luminance 255 255 255) = 255"
  "remapB defaultsNoDither (luminance 2 2 2) = 7064470003718425 / 9007199254740992"
  "grayscalePixel defaultsNoDither (255, 255, 255) (2, 2, 2)
     = [280375465082881 / 1099511627776, 280375465082881 / 1099511627776,
        280375465082881 / 1099511627776, 27595585952025 / 35184372088832]"
  by (simp_all add: grayscalePixel_def grayAlpha_def dominate_def defaultsNoDither_def
        INITIAL_CONFIG_def remapA_def remapB_def scaleA_def scaleB_def offsetA_def
        luminance_def ev)

text \<open>
  Claim C10, as it is stated, fails. With the default bounds, a white surface pixel and
  the hidden pixel (2, 2, 2), \<open>lumA'\<close> is 255 and \<open>lumB'\<close> is about 0.7843137254901961;
  the subtraction \<open>lumA' - lumB'\<close> is rounded, and alpha comes out as about
  0.7843137254901933, below \<open>lumB'\<close>. The gray value is then about 255.0000000000009,
  above 255.
\<close>

theorem grayscale_gray_above_255:
  "grayscalePixel defaultsNoDither (255, 255, 255) (2, 2, 2) ! 3
     < dominate (remapA defaultsNoDither (luminance 255 255 255))
                (remapB defaultsNoDither (luminance 2 2 2))
   \<and> 255 < grayscalePixel defaultsNoDither (255, 255, 255) (2, 2, 2) ! 0"
  by (simp add: defaults_white_2 dominate_def)

lemma toUint8Clamp_above:
  assumes "255 \<le> v"
  shows "toUint8Clamp v = 255"
  using assms by (simp add: toUint8Clamp_def Let_def)

text \<open>
  Claim C10, amended. In grayscale mode, for every pixel and every configuration, the
  gray value is at least 0, so the store never clamps it from below. The dominance-clamped
  \<open>lumB'\<close> is at most \<open>255 - (lumA' - lumB')\<close> in exact arithmetic only; where the
  rounding of the binary64 operations takes the computed gray value above 255, the store
  writes the byte 255.
\<close>

theorem grayscale_gray_nonneg:
  "0 \<le> grayscalePixel config (rA, gA, bA) (rB, gB, bB) ! 0
   \<and> max 0 (grayscalePixel config (rA, gA, bA) (rB, gB, bB) ! 0)
       = grayscalePixel config (rA, gA, bA) (rB, gB, bB) ! 0
   \<and> dominate (remapA config (luminance rA gA bA)) (remapB config (luminance rB gB bB))
       \<le> 255 - (remapA config (luminance rA gA bA)
                 - dominate (remapA config (luminance rA gA bA))
                     (remapB config (luminance rB gB bB)))
   \<and> (255 < grayscalePixel config (rA, gA, bA) (rB, gB, bB) ! 0
        \<longrightarrow> toUint8Clamp (grayscalePixel config (rA, gA, bA) (rB, gB, bB) ! 0) = 255)"
proof -
  let ?a = "remapA config (luminance rA gA bA)" and ?b = "remapB config (luminance rB gB bB)"
  have r: "?a \<le> 255" "0 \<le> ?a" "0 \<le> ?b"
    using remapA_range remapB_range by blast+
  have "0 \<le> fst (grayAlpha ?a ?b)"
    using r by (intro grayAlpha_gray_nonneg)
  then show ?thesis
    using r(1) by (simp add: grayscalePixel_nth toUint8Clamp_above)
qed

theorem grayscale_gray_nonneg_witness:
  "255 < grayscalePixel defaultsNoDither (255, 255, 255) (2, 2, 2) ! 0
   \<and> toUint8Clamp (grayscalePixel defaultsNoDither (255, 255, 255) (2, 2, 2) ! 0) = 255"
  using grayscale_gray_nonneg [of defaultsNoDither 255 255 255 2 2 2]
  by (simp add: defaults_white_2)

section \<open>Colour mode\<close>








section \<open>Cover-fit calculator\<close>










section \<open>Output dimensions\<close>

text \<open>
  Claim C9. When the width (height) of the configuration is absent, the output width
  (height) is the minimum of the widths (heights) of the two source images; a width or
  height of 0 is treated as an absent one.
\<close>

theorem output_dimensions_fallback:
  "(width config = None \<or> width config = Some 0
      \<longrightarrow> outputWidth config sw hw = real (min sw hw))
 \<and> (height config = None \<or> height config = Some 0
      \<longrightarrow> outputHeight config sh hh = real (min sh hh))"
  by (auto simp: outputWidth_def outputHeight_def orElse_def)

theorem output_dimensions_fallback_witness:
  "outputWidth (identityGray\<lparr> width := Some 0 \<rparr>) 640 480 = 480
   \<and> outputHeight (identityGray\<lparr> width := Some 0 \<rparr>) 300 200 = 200"
  using output_dimensions_fallback [of "identityGray\<lparr> width := Some 0 \<rparr>" 640 480 300 200]
  by (simp add: identityGray_def)

section \<open>The remap chain on a solid gray pixel\<close>

lemma luminance_128: "luminance 128 128 128 = 128"
  by (simp add: luminance_def ev)

lemma defaults_remap_128:
  "remapA defaultsNoDither 128 = 3653655580048123 / 17592186044416"
  "remapB defaultsNoDither 128 = 7064470003718425 / 140737488355328"
  "remapA defaultsNoDither 128 = fadd (fmul 128 (fdiv 95 255)) 160"
  "remapB defaultsNoDither 128 = fmul 128 (fdiv 100 255)"
  by (simp_all add: defaultsNoDither_def INITIAL_CONFIG_def remapA_def remapB_def scaleA_def
        scaleB_def offsetA_def ev)

lemma defaults_pixel_128:
  "pixelValues defaultsNoDither (128, 128, 128) (128, 128, 128)
     = [144331628918595 / 1099511627776, 144331628918595 / 1099511627776,
        144331628918595 / 1099511627776, 214426326467845 / 2199023255552]"
  by (simp add: pixelValues_def grayscalePixel_def grayAlpha_def dominate_def
        defaultsNoDither_def INITIAL_CONFIG_def remapA_def remapB_def scaleA_def scaleB_def
        offsetA_def luminance_def ev)

text \<open>
  Claim C8. With \<open>surfaceMin = 160\<close> and \<open>hiddenMax = 100\<close> in grayscale mode without
  dithering, a pixel where both sources are gray 128 has luminance 128 and gives, before
  it is stored, \<open>lumA' = 128 * (95 / 255) + 160\<close>, about 207.7,
  \<open>lumB' = 128 * (100 / 255)\<close>, about 50.2, \<open>alpha = 255 - (lumA' - lumB')\<close>, about 97.5,
  and \<open>gray = lumB' * 255 / alpha\<close>, about 131.2. The operations are those of the source,
  rounded to binary64; the two remapped values are within \<open>10 ^ - 12\<close> of the exact
  expressions; "about" is to within 0.1 (the gray value lies between 131.26 and 131.27).
\<close>

theorem remap_chain_numbers:
  "luminance 128 128 128 = 128
 \<and> remapA defaultsNoDither (luminance 128 128 128) = fadd (fmul 128 (fdiv 95 255)) 160
 \<and> \<bar>remapA defaultsNoDither (luminance 128 128 128) - (128 * (95 / 255) + 160)\<bar> < 1 / 10 ^ 12
 \<and> \<bar>remapA defaultsNoDither (luminance 128 128 128) - 207.7\<bar> < 0.1
 \<and> remapB defaultsNoDither (luminance 128 128 128) = fmul 128 (fdiv 100 255)
 \<and> \<bar>remapB defaultsNoDither (luminance 128 128 128) - 128 * (100 / 255)\<bar> < 1 / 10 ^ 12
 \<and> \<bar>remapB defaultsNoDither (luminance 128 128 128) - 50.2\<bar> < 0.1
 \<and> pixelValues defaultsNoDither (128, 128, 128) (128, 128, 128) ! 3
      = fsub 255 (fsub (remapA defaultsNoDither (luminance 128 128 128))
                       (remapB defaultsNoDither (luminance 128 128 128)))
 \<and> \<bar>pixelValues defaultsNoDither (128, 128, 128) (128, 128, 128) ! 3 - 97.5\<bar> < 0.1
 \<and> pixelValues defaultsNoDither (128, 128, 128) (128, 128, 128) ! 0
      = fdiv (fmul (remapB defaultsNoDither (luminance 128 128 128)) 255)
          (pixelValues defaultsNoDither (128, 128, 128) (128, 128, 128) ! 3)
 \<and> \<bar>pixelValues defaultsNoDither (128, 128, 128) (128, 128, 128) ! 0 - 131.2\<bar> < 0.1
 \<and> 131.26 < pixelValues defaultsNoDither (128, 128, 128) (128, 128, 128) ! 0
 \<and> pixelValues defaultsNoDither (128, 128, 128) (128, 128, 128) ! 0 < 131.27"
proof -
  have a: "remapA defaultsNoDither (luminance 128 128 128) = fadd (fmul 128 (fdiv 95 255)) 160"
    and b: "remapB defaultsNoDither (luminance 128 128 128) = fmul 128 (fdiv 100 255)"
    unfolding luminance_128 by (rule defaults_remap_128)+
  have rest: "luminance 128 128 128 = 128
 \<and> \<bar>remapA defaultsNoDither (luminance 128 128 128) - (128 * (95 / 255) + 160)\<bar> < 1 / 10 ^ 12
 \<and> \<bar>remapA defaultsNoDither (luminance 128 128 128) - 207.7\<bar> < 0.1
 \<and> \<bar>remapB defaultsNoDither (luminance 128 128 128) - 128 * (100 / 255)\<bar> < 1 / 10 ^ 12
 \<and> \<bar>remapB defaultsNoDither (luminance 128 128 128) - 50.2\<bar> < 0.1
 \<and> pixelValues defaultsNoDither (128, 128, 128) (128, 128, 128) ! 3
      = fsub 255 (fsub (remapA defaultsNoDither (luminance 128 128 128))
                       (remapB defaultsNoDither (luminance 128 128 128)))
 \<and> \<bar>pixelValues defaultsNoDither (128, 128, 128) (128, 128, 128) ! 3 - 97.5\<bar> < 0.1
 \<and> pixelValues defaultsNoDither (128, 128, 128) (128, 128, 128) ! 0
      = fdiv (fmul (remapB defaultsNoDither (luminance 128 128 128)) 255)
          (pixelValues defaultsNoDither (128, 128, 128) (128, 128, 128) ! 3)
 \<and> \<bar>pixelValues defaultsNoDither (128, 128, 128) (128, 128, 128) ! 0 - 131.2\<bar> < 0.1
 \<and> 131.26 < pixelValues defaultsNoDither (128, 128, 128) (128, 128, 128) ! 0
 \<and> pixelValues defaultsNoDither (128, 128, 128) (128, 128, 128) ! 0 < 131.27"
    by (simp add: luminance_128 defaults_remap_128(1,2) defaults_pixel_128 ev abs_if)
  show ?thesis
    using a b rest by blast
qed

section \<open>Storing the computed values\<close>

lemma toUint8Clamp_98: "toUint8Clamp (214426326467845 / 2199023255552) = 98"
  by (simp add: toUint8Clamp_def Let_def)

lemma toUint8Clamp_131: "toUint8Clamp (144331628918595 / 1099511627776) = 131"
  by (simp add: toUint8Clamp_def Let_def)

lemma dither_off:
  assumes "\<not> ditheringStrength config > 0"
  shows "dither config g A B = ((A, B), g)"
  using assms by (simp add: dither_def split: prod.splits)

lemma defaults_pipeline_128:
  "generateMirageTank defaultsNoDither g [128, 128, 128, 255] [128, 128, 128, 255]
     = ([131, 131, 131, 98], g)"
proof -
  have off: "\<not> ditheringStrength defaultsNoDither > 0"
    by (simp add: ditheringStrength_def defaultsNoDither_def INITIAL_CONFIG_def fmul_def
          binary64_0)
  have "compositeLoop defaultsNoDither [128, 128, 128, 255] [128, 128, 128, 255] 0
          ([0, 0, 0, 0], g) = ([131, 131, 131, 98], g)"
    apply (subst compositeLoop.simps)
    apply (simp add: dither_off [OF off] sample_def defaults_pixel_128 storePixel_def
        toUint8Clamp_98 toUint8Clamp_131)
    apply (subst compositeLoop.simps)
    apply simp
    done
  then show ?thesis
    by (simp add: generateMirageTank_def)
       (simp add: defaultsNoDither_def INITIAL_CONFIG_def)
qed

text \<open>
  Claim C5, as the specification states it, fails: the bytes are not truncated. On the
  gray 128 pixel with the default bounds the computed alpha is about 97.51; the byte in
  the output buffer is 98, while the floor is 97.
\<close>

theorem stored_alpha_not_floor:
  "\<not> uint (fst (generateMirageTank defaultsNoDither rngA
                   [128, 128, 128, 255] [128, 128, 128, 255]) ! 3)
       = \<lfloor>pixelValues defaultsNoDither (128, 128, 128) (128, 128, 128) ! 3\<rfloor>"
  by (simp add: defaults_pipeline_128 defaults_pixel_128)

lemma uint_u8_of_int:
  assumes "0 \<le> k" "k \<le> 255"
  shows "uint (word_of_int k :: u8) = k"
  using assms by (simp add: uint_word_of_int take_bit_eq_mod)

lemma toUint8Clamp_nearest:
  assumes "0 \<le> v" "v \<le> 255"
  shows "uint (toUint8Clamp v) =
           (if real_of_int \<lfloor>v\<rfloor> + 1/2 < v then \<lfloor>v\<rfloor> + 1
            else if v < real_of_int \<lfloor>v\<rfloor> + 1/2 then \<lfloor>v\<rfloor>
            else if even \<lfloor>v\<rfloor> then \<lfloor>v\<rfloor> else \<lfloor>v\<rfloor> + 1)"
proof -
  define r where "r = (if real_of_int \<lfloor>v\<rfloor> + 1/2 < v then \<lfloor>v\<rfloor> + 1
            else if v < real_of_int \<lfloor>v\<rfloor> + 1/2 then \<lfloor>v\<rfloor>
            else if even \<lfloor>v\<rfloor> then \<lfloor>v\<rfloor> else \<lfloor>v\<rfloor> + 1)"
  have c: "max 0 (min 255 v) = v" using assms by simp
  have eq: "toUint8Clamp v = word_of_int r"
    unfolding toUint8Clamp_def Let_def c r_def by simp
  have f0: "0 \<le> \<lfloor>v\<rfloor>" using assms by simp
  have f1: "\<lfloor>v\<rfloor> \<le> 255" using assms by (simp add: floor_le_iff)
  have f2: "\<lfloor>v\<rfloor> + 1 \<le> 255" if "real_of_int \<lfloor>v\<rfloor> + 1/2 \<le> v"
  proof -
    from that assms have "real_of_int \<lfloor>v\<rfloor> < 255" by linarith
    then show ?thesis by linarith
  qed
  have "0 \<le> r \<and> r \<le> 255"
    unfolding r_def using f0 f1 f2 by (simp split: if_splits)
  then have "uint (word_of_int r :: u8) = r" by (simp add: uint_u8_of_int)
  then show ?thesis unfolding eq r_def .
qed
lemma storePixel_nth:
  assumes "i + 3 < length d" "k < 4"
  shows "storePixel d i vs ! (i + k) = toUint8Clamp (vs ! k)"
proof -
  from assms(2) consider "k = 0" | "k = 1" | "k = 2" | "k = 3"
    by linarith
  then show ?thesis
    using assms(1) by cases (simp_all add: storePixel_def)
qed

lemma nearest_even_props:
  fixes v :: real
  assumes "r = (if real_of_int \<lfloor>v\<rfloor> + 1/2 < v then \<lfloor>v\<rfloor> + 1
            else if v < real_of_int \<lfloor>v\<rfloor> + 1/2 then \<lfloor>v\<rfloor>
            else if even \<lfloor>v\<rfloor> then \<lfloor>v\<rfloor> else \<lfloor>v\<rfloor> + 1)"
  shows "\<bar>real_of_int r - v\<bar> \<le> 1/2
       \<and> (\<bar>real_of_int r - v\<bar> = 1/2 \<longrightarrow> even r)
       \<and> (r = \<lfloor>v\<rfloor> \<longleftrightarrow> v - real_of_int \<lfloor>v\<rfloor> < 1/2 \<or> (v - real_of_int \<lfloor>v\<rfloor> = 1/2 \<and> even \<lfloor>v\<rfloor>))"
proof -
  define f where "f = \<lfloor>v\<rfloor>"
  have fl: "real_of_int f \<le> v" "v < real_of_int f + 1"
    unfolding f_def by linarith+
  have r: "r = (if real_of_int f + 1/2 < v then f + 1
            else if v < real_of_int f + 1/2 then f
            else if even f then f else f + 1)"
    using assms unfolding f_def .
  consider (hi) "real_of_int f + 1/2 < v" | (lo) "v < real_of_int f + 1/2"
    | (tie) "v = real_of_int f + 1/2"
    by linarith
  then have "\<bar>real_of_int r - v\<bar> \<le> 1/2
       \<and> (\<bar>real_of_int r - v\<bar> = 1/2 \<longrightarrow> even r)
       \<and> (r = f \<longleftrightarrow> v - real_of_int f < 1/2 \<or> (v - real_of_int f = 1/2 \<and> even f))"
  proof cases
    case hi
    then have "r = f + 1" using r by simp
    then show ?thesis using hi fl by (auto simp: abs_if)
  next
    case lo
    then have "r = f" using r by simp
    then show ?thesis using lo fl by (auto simp: abs_if)
  next
    case tie
    show ?thesis
    proof (cases "even f")
      case True
      then have "r = f" using r tie by simp
      then show ?thesis using True tie by (auto simp: abs_if)
    next
      case False
      then have "r = f + 1" using r tie by simp
      then show ?thesis using False tie by (auto simp: abs_if)
    qed
  qed
  then show ?thesis unfolding f_def .
qed

text \<open>
  Claim C5, amended. For every pixel, in grayscale and in colour mode, each of the four
  computed values, when it lies in [0, 255], is written into the output buffer rounded to
  the nearest integer, a tie going to the even neighbour; the stored byte is the floor of
  the value exactly when the fractional part is below one half, or is one half with an
  even floor.
\<close>

theorem stored_bytes_rounded:
  assumes "i + 3 < length d" "k < 4"
      and "v = pixelValues config A B ! k"
      and "byte = storePixel d i (pixelValues config A B) ! (i + k)"
      and "0 \<le> v" "v \<le> 255"
  shows "\<bar>real_of_int (uint byte) - v\<bar> \<le> 1/2
       \<and> (\<bar>real_of_int (uint byte) - v\<bar> = 1/2 \<longrightarrow> even (uint byte))
       \<and> (uint byte = \<lfloor>v\<rfloor> \<longleftrightarrow>
            v - real_of_int \<lfloor>v\<rfloor> < 1/2 \<or> (v - real_of_int \<lfloor>v\<rfloor> = 1/2 \<and> even \<lfloor>v\<rfloor>))"
proof -
  have "byte = toUint8Clamp v"
    unfolding assms(3,4) using assms(1,2) by (rule storePixel_nth)
  then have "uint byte = (if real_of_int \<lfloor>v\<rfloor> + 1/2 < v then \<lfloor>v\<rfloor> + 1
            else if v < real_of_int \<lfloor>v\<rfloor> + 1/2 then \<lfloor>v\<rfloor>
            else if even \<lfloor>v\<rfloor> then \<lfloor>v\<rfloor> else \<lfloor>v\<rfloor> + 1)"
    using assms(5,6) by (simp add: toUint8Clamp_nearest)
  from nearest_even_props [OF this] show ?thesis .
qed

theorem stored_bytes_rounded_witness:
  "0 + 3 < length [0, 0, 0, 0 :: u8] \<and> (3::nat) < 4
   \<and> pixelValues defaultsNoDither (128, 128, 128) (128, 128, 128) ! 3
       = 214426326467845 / 2199023255552
   \<and> storePixel [0, 0, 0, 0] 0
        (pixelValues defaultsNoDither (128, 128, 128) (128, 128, 128)) ! (0 + 3) = 98
   \<and> (0::real) \<le> 214426326467845 / 2199023255552
   \<and> (214426326467845 / 2199023255552 :: real) \<le> 255
   \<and> \<bar>real_of_int (uint (98 :: u8)) - 214426326467845 / 2199023255552\<bar> \<le> 1 / 2
   \<and> uint (98 :: u8) \<noteq> \<lfloor>214426326467845 / 2199023255552 :: real\<rfloor>"
  using stored_bytes_rounded [of 0 "[0, 0, 0, 0]" 3 "214426326467845 / 2199023255552"
      defaultsNoDither "(128, 128, 128)" "(128, 128, 128)" 98]
  by (simp add: defaults_pixel_128 storePixel_def toUint8Clamp_98)

section \<open>Determinism without dithering\<close>

lemma compositeLoop_dither_off_aux:
  assumes "\<not> ditheringStrength config > 0"
  shows "\<forall>g g'. compositeLoop config surfaceData hiddenData i (fst (st :: u8 list \<times> rng), g)
                  = (fst (compositeLoop config surfaceData hiddenData i (fst st, g')), g)"
  using assms
proof (induction config surfaceData hiddenData i st rule: compositeLoop.induct)
  case (1 config surfaceData hiddenData i st)
  show ?case
  proof (cases "i < length (fst st)")
    case True
    let ?r = "storePixel (fst st) i (pixelValues config (sample surfaceData i) (sample hiddenData i))"
    have step: "compositeLoop config surfaceData hiddenData i (fst st, g) = compositeLoop config surfaceData hiddenData (i + 4) (?r, g)" for g
      using True by (subst compositeLoop.simps) (simp add: dither_off [OF "1.prems"])
    have "\<forall>g g'. compositeLoop config surfaceData hiddenData (i + 4) (fst (?r, snd st), g)
                  = (fst (compositeLoop config surfaceData hiddenData (i + 4) (fst (?r, snd st), g')), g)"
      using True "1.prems"
      by (intro "1.IH" [of "fst st" "snd st" "(sample surfaceData i, sample hiddenData i)" "snd st"
            "sample surfaceData i" "sample hiddenData i"])
         (simp_all add: dither_off)
    then show ?thesis
      by (simp add: step)
  next
    case False
    have "compositeLoop config surfaceData hiddenData i (fst st, g) = (fst st, g)" for g
      using False by (subst compositeLoop.simps) simp
    then show ?thesis by simp
  qed
qed

lemma compositeLoop_dither_off:
  assumes "\<not> ditheringStrength config > 0"
  shows "compositeLoop config surfaceData hiddenData i (r, g) = (fst (compositeLoop config surfaceData hiddenData i (r, g')), g)"
  using compositeLoop_dither_off_aux [OF assms, of surfaceData hiddenData i "(r, g)"]
  by (simp only: fst_conv)

text \<open>With the default strength the loop does draw: one number for a buffer of one pixel.\<close>

lemma default_dither_draws_once:
  "snd (generateMirageTank INITIAL_CONFIG rngA [128, 128, 128, 255] [128, 128, 128, 255])
     = (fst rngA, 1)"
proof -
  have on: "ditheringStrength INITIAL_CONFIG = 2"
    by (simp add: ditheringStrength_def INITIAL_CONFIG_def ev)
  obtain A' B' where d:
    "dither INITIAL_CONFIG rngA (sample [128, 128, 128, 255] 0) (sample [128, 128, 128, 255] 0)
       = ((A', B'), (fst rngA, 1))"
    by (simp add: dither_def on random_def rngA_def Let_def sample_def)
  have "snd (compositeLoop INITIAL_CONFIG [128, 128, 128, 255] [128, 128, 128, 255] 0
          ([0, 0, 0, 0], rngA)) = (fst rngA, 1)"
    apply (subst compositeLoop.simps)
    apply (simp add: d)
    apply (subst compositeLoop.simps)
    apply (simp add: storePixel_def)
    done
  moreover have "steganography INITIAL_CONFIG = []"
    by (simp add: INITIAL_CONFIG_def)
  ultimately show ?thesis
    by (simp add: generateMirageTank_def case_prod_unfold)
qed

text \<open>
  Claim C7. With \<open>dithering = 0\<close> the pipeline draws no random number (the generator is
  left in the state it was given in) and its output buffer does not depend on the
  generator: two runs on the same input buffers and the same configuration give the
  same bytes.
\<close>

theorem no_dither_deterministic:
  assumes "dithering config = 0"
  shows "fst (generateMirageTank config g1 surfaceData hiddenData)
           = fst (generateMirageTank config g2 surfaceData hiddenData)
       \<and> snd (generateMirageTank config g1 surfaceData hiddenData) = g1"
proof -
  have off: "\<not> ditheringStrength config > 0"
    using assms by (simp add: ditheringStrength_def fmul_def binary64_0)
  let ?r0 = "replicate (length surfaceData) (0 :: u8)"
  have "compositeLoop config surfaceData hiddenData 0 (?r0, g1)
          = (fst (compositeLoop config surfaceData hiddenData 0 (?r0, g2)), g1)"
    by (rule compositeLoop_dither_off [OF off])
  then show ?thesis
    by (simp add: generateMirageTank_def split: prod.splits)
qed

theorem no_dither_deterministic_witness:
  "dithering defaultsNoDither = 0
   \<and> fst (generateMirageTank defaultsNoDither rngA [128, 128, 128, 255] [128, 128, 128, 255])
       = fst (generateMirageTank defaultsNoDither rngB [128, 128, 128, 255] [128, 128, 128, 255])
   \<and> snd (generateMirageTank defaultsNoDither rngA [128, 128, 128, 255] [128, 128, 128, 255])
       = rngA"
  using no_dither_deterministic [of defaultsNoDither rngA "[128, 128, 128, 255]"
      "[128, 128, 128, 255]" rngB]
  by (simp add: defaultsNoDither_def INITIAL_CONFIG_def)

section \<open>Steganographic encoder\<close>

lemma mask_FE: "(0xFE :: 'a::len word) = push_bit 1 (mask 7)"
  by (simp add: mask_eq_exp_minus_1)

lemma bit_FE: "bit (0xFE :: 'a::len word) n \<longleftrightarrow> 1 \<le> n \<and> n < 8 \<and> n < LENGTH('a)"
proof -
  have "bit (push_bit 1 (mask 7) :: 'a word) n
          \<longleftrightarrow> n < LENGTH('a) \<and> 1 \<le> n \<and> n - 1 < LENGTH('a) \<and> n - 1 < 7"
    by (simp only: bit_push_bit_iff bit_mask_iff possible_bit_word) blast
  then show ?thesis
    unfolding mask_FE by auto
qed

lemma setLsb_eq: "setLsb x b = (x AND 0xFE) OR of_bool (bit b 0)"
  unfolding setLsb_def
  by (rule bit_word_eqI) (auto simp: bit_simps bit_FE)

lemma setLsb_high: "setLsb x b AND 0xFE = x AND 0xFE"
  unfolding setLsb_eq
  by (rule bit_word_eqI) (auto simp: bit_simps bit_FE)

lemma setLsb_low: "setLsb x b AND 1 = of_bool (bit b 0)"
  unfolding setLsb_eq
  by (rule bit_word_eqI) (auto simp: bit_simps bit_FE)

lemma channelIndex_div: "channelIndex i div 4 = i div 3"
  by (simp add: channelIndex_def)

lemma channelIndex_mod: "channelIndex i mod 4 = i mod 3"
  by (simp add: channelIndex_def)

lemma channelIndex_inj: "channelIndex i = channelIndex j \<Longrightarrow> i = j"
  by (metis channelIndex_div channelIndex_mod div_mult_mod_eq)

lemma channelIndex_in_range:
  assumes "real i < totalCapacityBits d"
  shows "channelIndex i < length d"
proof -
  from assms have "4 * i < 3 * length d"
    by (simp add: totalCapacityBits_def field_simps)
  then show ?thesis
    unfolding channelIndex_def by presburger
qed

lemma writeBit_eq:
  "writeBit capacity (d, c) b =
     (if capacity \<le> real c then (d, c)
      else (d[channelIndex c := setLsb (d ! channelIndex c) b], Suc c))"
  by (simp add: writeBit_def channelIndex_def setLsb_def Let_def)

lemma foldl_concat_map:
  "foldl (\<lambda>st x. foldl f st (g x)) s xs = foldl f s (concat (map g xs))"
  by (induction xs arbitrary: s) simp_all

lemma embed_as_foldl:
  assumes "text \<noteq> []"
  shows "embedSteganography d text
           = fst (foldl (writeBit (totalCapacityBits d)) (d, 0) (payloadBits text))"
  using assms by (simp add: embedSteganography_def payloadBits_def Let_def foldl_concat_map)

lemma foldl_writeBit_length:
  "length (fst (foldl (writeBit capacity) (d, c) bs)) = length d"
  by (induction bs arbitrary: d c) (simp_all add: writeBit_eq)

lemma foldl_writeBit_frame:
  assumes "\<forall>i. c \<le> i \<and> i < c + length bs \<and> real i < capacity \<longrightarrow> channelIndex i \<noteq> j"
  shows "fst (foldl (writeBit capacity) (d, c) bs) ! j = d ! j"
  using assms
proof (induction bs arbitrary: d c)
  case Nil
  then show ?case by simp
next
  case (Cons b bs)
  show ?case
  proof (cases "capacity \<le> real c")
    case True
    have "\<forall>i. c \<le> i \<and> i < c + length bs \<and> real i < capacity \<longrightarrow> channelIndex i \<noteq> j"
      using Cons.prems by simp
    from Cons.IH [OF this] True show ?thesis by (simp add: writeBit_eq)
  next
    case False
    then have "channelIndex c \<noteq> j" using Cons.prems by simp
    moreover have "\<forall>i. Suc c \<le> i \<and> i < Suc c + length bs \<and> real i < capacity \<longrightarrow> channelIndex i \<noteq> j"
      using Cons.prems by simp
    ultimately show ?thesis using Cons.IH [of "Suc c"] False by (simp add: writeBit_eq)
  qed
qed

lemma foldl_writeBit_high:
  "fst (foldl (writeBit capacity) (d, c) bs) ! j AND 0xFE = d ! j AND 0xFE"
proof (induction bs arbitrary: d c)
  case Nil
  then show ?case by simp
next
  case (Cons b bs)
  show ?case
  proof (cases "capacity \<le> real c")
    case True
    then show ?thesis using Cons.IH by (simp add: writeBit_eq)
  next
    case False
    have "d[channelIndex c := setLsb (d ! channelIndex c) b] ! j AND 0xFE = d ! j AND 0xFE"
    proof (cases "j = channelIndex c \<and> j < length d")
      case True
      then show ?thesis by (simp add: setLsb_high)
    next
      case False
      then show ?thesis by (cases "j = channelIndex c") (simp_all add: list_update_beyond)
    qed
    then show ?thesis using Cons.IH False by (simp add: writeBit_eq)
  qed
qed

lemma foldl_writeBit_bit:
  assumes "i < length bs" "real (c + i) < capacity" "channelIndex (c + i) < length d"
  shows "fst (foldl (writeBit capacity) (d, c) bs) ! channelIndex (c + i) AND 1
           = of_bool (bit (bs ! i) 0)"
  using assms
proof (induction bs arbitrary: d c i)
  case Nil
  then show ?case by simp
next
  case (Cons b bs)
  from Cons.prems have c: "\<not> capacity \<le> real c" by simp
  let ?d = "d[channelIndex c := setLsb (d ! channelIndex c) b]"
  have step: "foldl (writeBit capacity) (d, c) (b # bs) = foldl (writeBit capacity) (?d, Suc c) bs"
    using c by (simp add: writeBit_eq)
  show ?case
  proof (cases i)
    case 0
    have "\<forall>k. Suc c \<le> k \<and> k < Suc c + length bs \<and> real k < capacity \<longrightarrow> channelIndex k \<noteq> channelIndex c"
      using channelIndex_inj by fastforce
    then have "fst (foldl (writeBit capacity) (?d, Suc c) bs) ! channelIndex c = ?d ! channelIndex c"
      by (rule foldl_writeBit_frame)
    moreover have "?d ! channelIndex c = setLsb (d ! channelIndex c) b"
      using Cons.prems 0 by simp
    ultimately have "fst (foldl (writeBit capacity) (d, c) (b # bs)) ! channelIndex c
        = setLsb (d ! channelIndex c) b"
      unfolding step by simp
    then show ?thesis using 0 by (simp only: setLsb_low add_0_right nth_Cons_0)
  next
    case (Suc i')
    have "fst (foldl (writeBit capacity) (?d, Suc c) bs) ! channelIndex (Suc c + i') AND 1
            = of_bool (bit (bs ! i') 0)"
      using Cons.prems Suc by (intro Cons.IH) simp_all
    then show ?thesis using Suc unfolding step by simp
  qed
qed

lemma spec_readBit_channelIndex: "spec_readBit d i = unat (d ! channelIndex i AND 1)"
  by (simp add: spec_readBit_def channelIndex_def mult.commute)

lemma payloadBits_hi:
  "payloadBits ''hi'' =
     [0,1,0,0,0,0,0,0, 0,0,0,0,0,0,0,0, 0,0,0,0,0,0,0,0, 0,0,0,0,0,0,0,0,
      0,0,0,1,0,1,1,0, 1,0,0,1,0,1,1,0]"
  by (simp add: payloadBits_def lengthBits_def byteBits_def encode_def upt_rec)

lemma foldl_writeBit_full:
  assumes "capacity \<le> real c"
  shows "foldl (writeBit capacity) (d, c) bs = (d, c)"
  using assms by (induction bs) (simp_all add: writeBit_eq)

lemma embed_length: "length (embedSteganography d text) = length d"
  by (cases "text = []") (simp_all add: embed_as_foldl foldl_writeBit_length, simp add: embedSteganography_def)

lemma embed_high: "embedSteganography d text ! j AND 0xFE = d ! j AND 0xFE"
  by (cases "text = []") (simp_all add: embed_as_foldl foldl_writeBit_high, simp add: embedSteganography_def)

lemma embed_frame:
  assumes "\<forall>i < length (payloadBits text). real i < totalCapacityBits d \<longrightarrow> channelIndex i \<noteq> j"
  shows "embedSteganography d text ! j = d ! j"
proof (cases "text = []")
  case True
  then show ?thesis by (simp add: embedSteganography_def)
next
  case False
  have "fst (foldl (writeBit (totalCapacityBits d)) (d, 0) (payloadBits text)) ! j = d ! j"
    using assms by (intro foldl_writeBit_frame) simp
  then show ?thesis using False by (simp add: embed_as_foldl)
qed

lemma embed_alpha:
  assumes "j mod 4 = 3"
  shows "embedSteganography d text ! j = d ! j"
proof (rule embed_frame, intro allI impI)
  fix i
  have "channelIndex i mod 4 < 3" by (simp add: channelIndex_mod)
  then show "channelIndex i \<noteq> j" using assms by auto
qed

lemma embed_bit:
  assumes "text \<noteq> []" "i < length (payloadBits text)" "real i < totalCapacityBits d"
  shows "spec_readBit (embedSteganography d text) i = (if bit (payloadBits text ! i) 0 then 1 else 0)"
proof -
  have "channelIndex (0 + i) < length d"
    using assms(3) by (simp add: channelIndex_in_range)
  then have "fst (foldl (writeBit (totalCapacityBits d)) (d, 0) (payloadBits text)) ! channelIndex (0 + i) AND 1
      = of_bool (bit (payloadBits text ! i) 0)"
    using assms by (intro foldl_writeBit_bit) simp_all
  then show ?thesis
    using assms(1) by (simp add: spec_readBit_channelIndex embed_as_foldl)
qed

lemma bits_hi:
  "map (\<lambda>b. if bit b 0 then 1 else 0 :: nat) (payloadBits ''hi'') =
     [0,1,0,0,0,0,0,0, 0,0,0,0,0,0,0,0, 0,0,0,0,0,0,0,0, 0,0,0,0,0,0,0,0,
      0,0,0,1,0,1,1,0, 1,0,0,1,0,1,1,0]"
  by (simp add: payloadBits_hi)

lemma length_payloadBits: "length (payloadBits text) = 32 + 8 * length text"
proof -
  have "length (concat (map byteBits bs)) = 8 * length bs" for bs
    by (induction bs) (simp_all add: byteBits_def)
  from this [of "encode text"] show ?thesis
    by (simp add: payloadBits_def lengthBits_def) (simp add: encode_def)
qed

text \<open>
  Claim C3. Embedding the payload "hi" into any buffer of 16 or more pixels (48 bits of
  capacity or more) and reading it back with the symmetric extraction gives the length 2
  and the bytes 0x68, 0x69; the buffer keeps its length, the high seven bits of every
  byte are kept, and the alpha bytes and the bytes after the 16th pixel are unchanged.
\<close>

theorem stego_roundtrip_hi:
  assumes "48 \<le> totalCapacityBits d"
  shows "spec_extractLength (embedSteganography d ''hi'') = 2
       \<and> spec_extractBytes (embedSteganography d ''hi'') = [0x68, 0x69]
       \<and> length (embedSteganography d ''hi'') = length d
       \<and> (\<forall>j < length d. embedSteganography d ''hi'' ! j AND 0xFE = d ! j AND 0xFE)
       \<and> (\<forall>j < length d. j mod 4 = 3 \<or> 64 \<le> j \<longrightarrow> embedSteganography d ''hi'' ! j = d ! j)"
proof -
  let ?e = "embedSteganography d ''hi''"
  let ?bits = "[0,1,0,0,0,0,0,0, 0,0,0,0,0,0,0,0, 0,0,0,0,0,0,0,0, 0,0,0,0,0,0,0,0,
      0,0,0,1,0,1,1,0, 1,0,0,1,0,1,1,0] :: nat list"
  have len: "length (payloadBits ''hi'') = 48"
    by (simp add: length_payloadBits)
  note cap = assms
  have rb: "spec_readBit ?e i = ?bits ! i" if "i < 48" for i
  proof -
    have "spec_readBit ?e i = (if bit (payloadBits ''hi'' ! i) 0 then 1 else 0)"
      using that cap by (intro embed_bit) (simp_all add: len)
    also have "\<dots> = map (\<lambda>b. if bit b 0 then 1 else 0 :: nat) (payloadBits ''hi'') ! i"
      using that by (simp add: len)
    finally show ?thesis by (simp only: bits_hi)
  qed
  have l: "spec_extractLength ?e = 2"
    by (simp add: spec_extractLength_def spec_readBits_def upt_rec rb)
  have b: "spec_extractBytes ?e = [0x68, 0x69]"
    by (simp add: spec_extractBytes_def l spec_readBits_def upt_rec rb)
  have far: "?e ! j = d ! j" if "64 \<le> j" for j
  proof (rule embed_frame, intro allI impI)
    fix i assume "i < length (payloadBits ''hi'')"
    then have "i < 48" by (simp add: len)
    then have "channelIndex i < 64" unfolding channelIndex_def by presburger
    then show "channelIndex i \<noteq> j" using that by simp
  qed
  show ?thesis
    using l b far by (simp add: embed_length embed_high embed_alpha)
qed

theorem stego_roundtrip_hi_witness:
  "48 \<le> totalCapacityBits (replicate 64 (0xFF :: u8))
   \<and> spec_extractLength (embedSteganography (replicate 64 0xFF) ''hi'') = 2
   \<and> spec_extractBytes (embedSteganography (replicate 64 0xFF) ''hi'') = [0x68, 0x69]
   \<and> embedSteganography (replicate 64 0xFF) ''hi'' ! 63 = 0xFF"
  using stego_roundtrip_hi [of "replicate 64 0xFF"] by (simp add: totalCapacityBits_def)

lemma lengthBits_bit:
  assumes "i < 32"
  shows "bit (lengthBits n ! i) 0 \<longleftrightarrow> bit n i"
  using assms by (simp add: lengthBits_def bit_simps)


lemma length_encode: "length (encode text) = length text"
  by (simp add: encode_def)

lemma payloadBits_first3:
  "\<exists>rest. payloadBits text = lengthBits (length text) ! 0 # lengthBits (length text) ! 1 # lengthBits (length text) ! 2 # rest"
proof -
  have "length (lengthBits (length text)) = 32" by (simp add: lengthBits_def)
  then obtain b0 b1 b2 r where "lengthBits (length text) = b0 # b1 # b2 # r"
    by (auto simp: length_Suc_conv eval_nat_numeral)
  then show ?thesis by (simp add: payloadBits_def encode_def)
qed

lemma concat_chunks_nth:
  assumes "\<forall>x \<in> set xs. length (f x) = 8" "j < 8 * length xs"
  shows "concat (map f xs) ! j = f (xs ! (j div 8)) ! (j mod 8)"
  using assms
proof (induction xs arbitrary: j)
  case Nil
  then show ?case by simp
next
  case (Cons x xs)
  have lx: "length (f x) = 8"
    using Cons.prems(1) by simp
  show ?case
  proof (cases "j < 8")
    case True
    then show ?thesis
      by (simp add: nth_append lx)
  next
    case False
    then obtain j' where j: "j = j' + 8"
      by (metis add.commute le_Suc_ex not_less)
    have "concat (map f xs) ! j' = f (xs ! (j' div 8)) ! (j' mod 8)"
      using Cons.prems by (intro Cons.IH) (simp_all add: j)
    then show ?thesis
      by (simp add: nth_append lx j)
  qed
qed

lemma byteBits_bit:
  assumes "k < 8"
  shows "bit (byteBits b ! k) 0 \<longleftrightarrow> bit b k"
  using assms by (simp add: byteBits_def bit_simps)

lemma bit_of_char_u8:
  assumes "k < 8"
  shows "bit (of_char c :: u8) k \<longleftrightarrow> bit (of_char c :: nat) k"
proof -
  have "(of_char c :: u8) = of_nat (of_char c)"
    by (simp only: of_nat_of_char)
  then have "bit (of_char c :: u8) k \<longleftrightarrow> bit (of_nat (of_char c) :: u8) k"
    by simp
  also have "\<dots> \<longleftrightarrow> bit (of_char c :: nat) k"
    using assms by (simp only: bit_of_nat_iff) (simp add: bit_simps)
  finally show ?thesis .
qed

lemma payloadBits_bit:
  assumes "i < spec_requiredBits text"
  shows "bit (payloadBits text ! i) 0 \<longleftrightarrow> spec_streamBit text i"
proof (cases "i < 32")
  case True
  have "payloadBits text ! i = lengthBits (length text) ! i"
    using True by (simp add: payloadBits_def nth_append lengthBits_def length_encode)
  then show ?thesis
    using True by (simp add: lengthBits_bit spec_streamBit_def)
next
  case False
  define j where "j = i - 32"
  have j: "j < 8 * length (encode text)" "j div 8 < length text"
    using assms False by (simp_all add: j_def spec_requiredBits_def length_encode)
  have "payloadBits text ! i = concat (map byteBits (encode text)) ! j"
    using False by (simp add: payloadBits_def nth_append lengthBits_def j_def)
  also have "\<dots> = byteBits (encode text ! (j div 8)) ! (j mod 8)"
    using j(1) by (intro concat_chunks_nth) (simp_all add: byteBits_def)
  finally have "bit (payloadBits text ! i) 0 \<longleftrightarrow> bit (encode text ! (j div 8)) (j mod 8)"
    by (simp add: byteBits_bit)
  also have "encode text ! (j div 8) = of_char (text ! (j div 8))"
    using j(2) by (simp add: encode_def)
  finally show ?thesis
    using False by (simp add: spec_streamBit_def j_def bit_of_char_u8)
qed

text \<open>
  Claim C6. The encoder has no failing path: for every buffer and every non-empty payload,
  also when the \<open>32 + 8 * length\<close> bits of the stream exceed the capacity, it returns a
  buffer of the same length in which the high seven bits of every byte and the alpha
  bytes are unchanged. Every bit of the stream whose index is below the capacity is in
  its place, the least significant bit of channel \<open>i mod 3\<close> of pixel \<open>i div 3\<close>; a byte
  that carries no such bit is unchanged, so the bits from the capacity on are dropped. In
  a buffer of one pixel the result is the pixel with the least significant bits of R, G
  and B replaced by bits 0, 1 and 2 of the length.
\<close>

theorem stego_capacity_exceeded:
  assumes "text \<noteq> []"
  shows "length (embedSteganography d text) = length d
       \<and> (\<forall>j < length d. embedSteganography d text ! j AND 0xFE = d ! j AND 0xFE)
       \<and> (\<forall>j < length d. j mod 4 = 3 \<longrightarrow> embedSteganography d text ! j = d ! j)
       \<and> (\<forall>i < spec_requiredBits text. real i < totalCapacityBits d \<longrightarrow>
             spec_readBit (embedSteganography d text) i
               = (if spec_streamBit text i then 1 else 0))
       \<and> (\<forall>j < length d.
             (\<forall>i < spec_requiredBits text. real i < totalCapacityBits d
                 \<longrightarrow> 4 * (i div 3) + i mod 3 \<noteq> j)
             \<longrightarrow> embedSteganography d text ! j = d ! j)
       \<and> embedSteganography [r, g, b, a] text
           = [(r AND 0xFE) OR of_bool (bit (length text) 0),
              (g AND 0xFE) OR of_bool (bit (length text) 1),
              (b AND 0xFE) OR of_bool (bit (length text) 2), a]"
proof -
  have len: "length (payloadBits text) = spec_requiredBits text"
    by (simp add: length_payloadBits spec_requiredBits_def)
  have ci: "channelIndex i = 4 * (i div 3) + i mod 3" for i
    by (simp add: channelIndex_def)
  obtain rest where pb: "payloadBits text = lengthBits (length text) ! 0
      # lengthBits (length text) ! 1 # lengthBits (length text) ! 2 # rest"
    using payloadBits_first3 by blast
  have cap: "totalCapacityBits [r, g, b, a] = 3"
    by (simp add: totalCapacityBits_def)
  have one: "embedSteganography [r, g, b, a] text
           = [(r AND 0xFE) OR of_bool (bit (length text) 0),
              (g AND 0xFE) OR of_bool (bit (length text) 1),
              (b AND 0xFE) OR of_bool (bit (length text) 2), a]"
    using assms
    by (simp add: embed_as_foldl cap pb writeBit_eq channelIndex_def foldl_writeBit_full
          setLsb_eq lengthBits_bit)
  have rd: "spec_readBit (embedSteganography d text) i = (if spec_streamBit text i then 1 else 0)"
    if "i < spec_requiredBits text" "real i < totalCapacityBits d" for i
    using embed_bit [OF assms, of i d] that by (simp add: len payloadBits_bit)
  have fr: "embedSteganography d text ! j = d ! j"
    if "\<forall>i < spec_requiredBits text. real i < totalCapacityBits d
          \<longrightarrow> 4 * (i div 3) + i mod 3 \<noteq> j" for j
    using that by (intro embed_frame) (simp add: len ci)
  show ?thesis
    using one rd fr by (simp add: embed_length embed_high embed_alpha)
qed

theorem stego_capacity_exceeded_witness:
  "''hello'' \<noteq> []
   \<and> real (spec_requiredBits ''hello'') > totalCapacityBits [0x10, 0x21, 0x32, 0xFF]
   \<and> embedSteganography [0x10, 0x21, 0x32, 0xFF] ''hello'' = [0x11, 0x20, 0x33, 0xFF]"
proof -
  have ne: "''hello'' \<noteq> []"
    by simp
  have l: "length ''hello'' = 5"
    by simp
  have "embedSteganography [0x10, 0x21, 0x32, 0xFF] ''hello''
          = [(0x10 AND 0xFE) OR of_bool (bit (length ''hello'') 0),
             (0x21 AND 0xFE) OR of_bool (bit (length ''hello'') 1),
             (0x32 AND 0xFE) OR of_bool (bit (length ''hello'') 2), 0xFF]"
    using stego_capacity_exceeded [OF ne, of "[0x10, 0x21, 0x32, 0xFF]" "0x10" "0x21" "0x32" "0xFF"]
    by blast
  also have "\<dots> = [0x11, 0x20, 0x33, 0xFF]"
    unfolding l by (simp add: bit_iff_odd)
  finally show ?thesis
    by (simp add: totalCapacityBits_def spec_requiredBits_def)
qed

end
